theory Spec2Isabelle
  imports Main
begin

section \<open>The operating system as seen by the supervisor\<close>

text \<open>
  The supervisor of \<^verbatim>\<open>server_manager.py\<close> and the admin panel of
  \<^verbatim>\<open>admin_panel.py\<close> drive one child process through its pipes and through signals.
  Every call that leaves the Python program is an \<open>event\<close>; a run is the list of events
  in the order they happened. What the operating system answers is an \<open>env\<close>: one
  function per call, from the events so far (the call itself last) to the answer, so an
  environment can be any deterministic behaviour of the child and of the system.
  A process is named by a \<open>handle\<close>, the position of its \<^verbatim>\<open>Popen\<close> event in
  the run.
\<close>

type_synonym handle = nat

datatype exn =
    FileNotFoundError | FileExistsError | PermissionError | BrokenPipeError
  | OSError | RuntimeError | AttributeError | UnicodeDecodeError | TimeoutExpired

datatype log_level = DEBUG | INFO | WARNING | ERROR

datatype log_msg =
    JarNotFound string
  | AlreadyRunning
  | StartingWithCommand "string list"
  | StartedWaiting
  | StoppedDuringStart
  | ServerReady
  | SlowStart
  | StartError exn
  | NotRunning
  | SavingWorld
  | SendingStop
  | StoppedOk
  | ForcingTermination
  | StoppedForced
  | StopError exn
  | CannotSend
  | CommandSent string
  | SendError exn
  | ServerLine string
  | ServerHasStopped
  | CaptureError exn
  | Restarting
  | RestartStopFailed
  | WorldMissing
  | SavingBeforeBackup
  | CreatingBackup string
  | BackupDone string
  | BackupError exn

datatype console_msg =
    PanelAlreadyRunning
  | PanelStarted
  | PanelStartError exn
  | PanelNotRunning
  | PanelSendingStop
  | PanelWaiting nat
  | PanelStillRunning
  | PanelTerminateError exn
  | PanelKillError exn
  | PanelStopped
  | PanelStopError exn
  | PanelReadError exn
  | PanelSendError exn

datatype event =
    Popen "string list"
  | ThreadStart
  | Write handle string
  | Flush handle
  | Poll handle
  | Terminate handle
  | Kill handle
  | Wait handle nat
  | Sleep nat
  | ReaderPoll handle
  | Readline handle
  | ReaderTerminate handle
  | PathExists string
  | Makedirs string
  | Now
  | ZipWorld string
  | Chdir
  | OpenLog
  | Log log_level log_msg
  | Console console_msg
  | Print string

record env =
  os_popen :: "event list \<Rightarrow> exn option"
  os_thread_start :: "event list \<Rightarrow> exn option"
  os_write :: "event list \<Rightarrow> exn option"
  os_flush :: "event list \<Rightarrow> exn option"
  os_poll :: "event list \<Rightarrow> exn + int option"
  os_terminate :: "event list \<Rightarrow> exn option"
  os_kill :: "event list \<Rightarrow> exn option"
  os_wait :: "event list \<Rightarrow> exn option"
  os_readline :: "event list \<Rightarrow> exn + string"
  reader_turns :: "event list \<Rightarrow> nat"
  os_path_exists :: "event list \<Rightarrow> bool"
  os_makedirs :: "event list \<Rightarrow> exn option"
  os_now :: "event list \<Rightarrow> string"
  os_zip_world :: "event list \<Rightarrow> exn option"
  os_chdir :: "event list \<Rightarrow> exn option"
  os_open_log :: "event list \<Rightarrow> exn option"

section \<open>Strings\<close>

text \<open>
  A \<open>char\<close> is a code point below 256. \<open>is_space\<close> is \<^verbatim>\<open>str.isspace()\<close> on
  these (tab to carriage return, the four separators, the space, U+0085 and U+00A0),
  \<open>strip\<close> is \<^verbatim>\<open>str.strip()\<close>, and \<open>contains sub s\<close> is the test
  \<^verbatim>\<open>sub in s\<close>.
\<close>

definition is_space :: "char \<Rightarrow> bool" where
  "is_space c = (c \<in> set [CHR 0x09, CHR 0x0A, CHR 0x0B, CHR 0x0C, CHR 0x0D,
                           CHR 0x1C, CHR 0x1D, CHR 0x1E, CHR 0x1F, CHR 0x20,
                           CHR 0x85, CHR 0xA0])"

definition strip :: "string \<Rightarrow> string" where
  "strip s = rev (dropWhile is_space (rev (dropWhile is_space s)))"

fun contains :: "string \<Rightarrow> string \<Rightarrow> bool" where
  "contains sub [] = (sub = [])"
| "contains sub (c # cs) = (take (length sub) (c # cs) = sub \<or> contains sub cs)"

section \<open>MinecraftServer (server\_manager.py)\<close>

datatype thread_state = Created | Active | Finished

record server =
  server_jar :: string
  min_ram :: string
  max_ram :: string
  java_path :: string
  server_port :: int
  process :: "handle option"
  is_running :: bool
  output_thread :: "thread_state option"
  console_log :: "string list"
  max_console_lines :: int

definition SERVER_JAR :: string where "SERVER_JAR = ''server.jar''"
definition MIN_RAM :: string where "MIN_RAM = ''1G''"
definition MAX_RAM :: string where "MAX_RAM = ''4G''"
definition JAVA_PATH :: string where "JAVA_PATH = ''java''"
definition SERVER_PORT :: int where "SERVER_PORT = 25565"

text \<open>\<^verbatim>\<open>MinecraftServer.__init__\<close>: the fields, then the check that the jar exists.\<close>

definition MinecraftServer_init ::
  "env \<Rightarrow> string \<Rightarrow> string \<Rightarrow> string \<Rightarrow> string \<Rightarrow> int \<Rightarrow> event list \<Rightarrow> server \<times> event list" where
  "MinecraftServer_init env jar minr maxr java port h =
     (let s = \<lparr> server_jar = jar, min_ram = minr, max_ram = maxr, java_path = java,
                 server_port = port, process = None, is_running = False,
                 output_thread = None, console_log = [], max_console_lines = 1000 \<rparr>;
          h1 = h @ [PathExists jar]
      in if \<not> os_path_exists env h1 then (s, h1 @ [Log ERROR (JarNotFound jar)]) else (s, h1))"

subsection \<open>The output reader\<close>

text \<open>
  The body of the loop of \<^verbatim>\<open>_capture_output\<close> for one line read: a non-empty line is
  stripped and appended, and the first line is dropped when the log has grown past
  \<^verbatim>\<open>max_console_lines\<close>.
\<close>

definition capture_line :: "server \<Rightarrow> string \<Rightarrow> server" where
  "capture_line s line =
     (if line \<noteq> [] then
        (let s1 = s\<lparr>console_log := console_log s @ [strip line]\<rparr>
         in if int (length (console_log s1)) > max_console_lines s1
            then s1\<lparr>console_log := tl (console_log s1)\<rparr> else s1)
      else s)"

text \<open>
  \<^verbatim>\<open>_capture_output\<close> runs in its own thread. \<open>capture_output env k\<close> is the thread
  running for at most \<open>k\<close> turns of its loop: it stops earlier when the loop condition
  fails or a call raises, and then the thread is \<open>Finished\<close>; after \<open>k\<close> turns it is
  still \<open>Active\<close>, blocked until it is scheduled again.
\<close>

fun capture_output :: "env \<Rightarrow> nat \<Rightarrow> server \<times> event list \<Rightarrow> server \<times> event list" where
  "capture_output env 0 (s, h) = (s, h)"
| "capture_output env (Suc k) (s, h) =
     (if output_thread s \<noteq> Some Active then (s, h)
      else if \<not> is_running s then
        (s\<lparr>is_running := False, output_thread := Some Finished\<rparr>, h @ [Log INFO ServerHasStopped])
      else case process s of
        None \<Rightarrow>
          (s\<lparr>is_running := False, output_thread := Some Finished\<rparr>, h @ [Log INFO ServerHasStopped])
      | Some p \<Rightarrow>
          (case os_poll env (h @ [ReaderPoll p]) of
             Inl e \<Rightarrow>
               (s\<lparr>is_running := False, output_thread := Some Finished\<rparr>,
                h @ [ReaderPoll p, Log ERROR (CaptureError e)])
           | Inr (Some rc) \<Rightarrow>
               (s\<lparr>is_running := False, output_thread := Some Finished\<rparr>,
                h @ [ReaderPoll p, Log INFO ServerHasStopped])
           | Inr None \<Rightarrow>
               (case os_readline env (h @ [ReaderPoll p, Readline p]) of
                  Inl e \<Rightarrow>
                    (s\<lparr>is_running := False, output_thread := Some Finished\<rparr>,
                     h @ [ReaderPoll p, Readline p, Log ERROR (CaptureError e)])
                | Inr line \<Rightarrow>
                    capture_output env k
                      (capture_line s line,
                       if line \<noteq> [] then h @ [ReaderPoll p, Readline p, Log DEBUG (ServerLine (strip line))]
                       else h @ [ReaderPoll p, Readline p]))))"

text \<open>
  \<^verbatim>\<open>time.sleep(n)\<close>: the calling thread waits, and the reader thread runs for as many
  turns as the environment schedules in that time.
\<close>

definition sleep :: "env \<Rightarrow> nat \<Rightarrow> server \<times> event list \<Rightarrow> server \<times> event list" where
  "sleep env n = (\<lambda>(s, h). capture_output env (reader_turns env (h @ [Sleep n])) (s, h @ [Sleep n]))"

subsection \<open>send\_command\<close>

definition send_command ::
  "env \<Rightarrow> string \<Rightarrow> server \<times> event list \<Rightarrow> (exn + bool) \<times> server \<times> event list" where
  "send_command env command = (\<lambda>(s, h).
     if \<not> is_running s then (Inr False, s, h @ [Log ERROR CannotSend])
     else case process s of
       None \<Rightarrow> (Inr False, s, h @ [Log ERROR CannotSend])
     | Some p \<Rightarrow>
         (case os_write env (h @ [Write p (command @ [CHR 0x0A])]) of
            Some e \<Rightarrow> (Inr False, s, h @ [Write p (command @ [CHR 0x0A]), Log ERROR (SendError e)])
          | None \<Rightarrow>
              (case os_flush env (h @ [Write p (command @ [CHR 0x0A]), Flush p]) of
                 Some e \<Rightarrow>
                   (Inr False, s,
                    h @ [Write p (command @ [CHR 0x0A]), Flush p, Log ERROR (SendError e)])
               | None \<Rightarrow>
                   (Inr True, s,
                    h @ [Write p (command @ [CHR 0x0A]), Flush p, Log INFO (CommandSent command)]))))"

subsection \<open>start\<close>

definition ready_line :: "string \<Rightarrow> bool" where
  "ready_line line = (contains ''Done'' line \<and> contains ''For help, type'' line)"

text \<open>
  The readiness loop of \<^verbatim>\<open>start\<close>, \<^verbatim>\<open>for _ in range(max_wait_time)\<close>, and the
  two returns after it. The counter is the number of rounds left.
\<close>

fun wait_ready :: "env \<Rightarrow> nat \<Rightarrow> server \<times> event list \<Rightarrow> (exn + bool) \<times> server \<times> event list" where
  "wait_ready env 0 (s, h) = (Inr True, s, h @ [Log WARNING SlowStart])"
| "wait_ready env (Suc n) (s, h) =
     (if \<not> is_running s then (Inr False, s, h @ [Log ERROR StoppedDuringStart])
      else if list_ex ready_line (console_log s) then (Inr True, s, h @ [Log INFO ServerReady])
      else wait_ready env n (sleep env 1 (s, h)))"

text \<open>The \<^verbatim>\<open>try\<close> block of \<^verbatim>\<open>start\<close>; \<open>Inl e\<close> is the exception it raises.\<close>

definition launch_command :: "server \<Rightarrow> string list" where
  "launch_command s =
     [java_path s, ''-Xms'' @ min_ram s, ''-Xmx'' @ max_ram s, ''-jar'', server_jar s, ''nogui'']"

definition start_body :: "env \<Rightarrow> server \<times> event list \<Rightarrow> (exn + bool) \<times> server \<times> event list" where
  "start_body env = (\<lambda>(s, h).
     let command = launch_command s;
         h1 = h @ [Log INFO (StartingWithCommand command)];
         h2 = h1 @ [Popen command]
     in case os_popen env h2 of
          Some e \<Rightarrow> (Inl e, s, h2)
        | None \<Rightarrow>
            (let s1 = s\<lparr>process := Some (length h1)\<rparr>;
                 s2 = s1\<lparr>is_running := True\<rparr>;
                 s3 = s2\<lparr>output_thread := Some Created\<rparr>;
                 h3 = h2 @ [ThreadStart]
             in case os_thread_start env h3 of
                  Some e \<Rightarrow> (Inl e, s3, h3)
                | None \<Rightarrow>
                    wait_ready env 60
                      (s3\<lparr>output_thread := Some Active\<rparr>, h3 @ [Log INFO StartedWaiting])))"

definition start :: "env \<Rightarrow> server \<times> event list \<Rightarrow> (exn + bool) \<times> server \<times> event list" where
  "start env = (\<lambda>(s, h).
     if is_running s then (Inr True, s, h @ [Log WARNING AlreadyRunning])
     else case start_body env (s, h) of
       (Inl e, s', h') \<Rightarrow> (Inr False, s'\<lparr>is_running := False\<rparr>, h' @ [Log ERROR (StartError e)])
     | (Inr b, s', h') \<Rightarrow> (Inr b, s', h'))"

subsection \<open>stop\<close>

text \<open>
  The first two statements of the \<^verbatim>\<open>try\<close> block of \<^verbatim>\<open>stop\<close>: the world is
  saved and the caller waits two seconds.
\<close>

definition stop_save :: "env \<Rightarrow> server \<times> event list \<Rightarrow> server \<times> event list" where
  "stop_save env = (\<lambda>(s, h).
     sleep env 2 (snd (send_command env ''save-all'' (s, h @ [Log INFO SavingWorld]))))"

text \<open>
  The loop \<^verbatim>\<open>for _ in range(timeout)\<close>: \<open>Inr True\<close> when a poll saw the exit
  (the method returns there), \<open>Inr False\<close> when the rounds are used up.
\<close>

fun stop_poll :: "env \<Rightarrow> nat \<Rightarrow> server \<times> event list \<Rightarrow> (exn + bool) \<times> server \<times> event list" where
  "stop_poll env 0 (s, h) = (Inr False, s, h)"
| "stop_poll env (Suc n) (s, h) =
     (case process s of
        None \<Rightarrow> (Inl AttributeError, s, h)
      | Some p \<Rightarrow>
          (case os_poll env (h @ [Poll p]) of
             Inl e \<Rightarrow> (Inl e, s, h @ [Poll p])
           | Inr (Some rc) \<Rightarrow> (Inr True, s\<lparr>is_running := False\<rparr>, h @ [Poll p, Log INFO StoppedOk])
           | Inr None \<Rightarrow> stop_poll env n (sleep env 1 (s, h @ [Poll p]))))"

text \<open>
  The forced end: \<^verbatim>\<open>terminate()\<close>, two seconds, and \<^verbatim>\<open>kill()\<close> when the process
  is still there. \<open>Some e\<close> is the exception raised.
\<close>

definition terminate_kill ::
  "env \<Rightarrow> handle \<Rightarrow> server \<times> event list \<Rightarrow> exn option \<times> server \<times> event list" where
  "terminate_kill env p = (\<lambda>(s, h).
     case os_terminate env (h @ [Terminate p]) of
       Some e \<Rightarrow> (Some e, s, h @ [Terminate p])
     | None \<Rightarrow>
         (case sleep env 2 (s, h @ [Terminate p]) of (s1, h1) \<Rightarrow>
            (case process s1 of
               None \<Rightarrow> (Some AttributeError, s1, h1)
             | Some q \<Rightarrow>
                 (case os_poll env (h1 @ [Poll q]) of
                    Inl e \<Rightarrow> (Some e, s1, h1 @ [Poll q])
                  | Inr (Some rc) \<Rightarrow> (None, s1, h1 @ [Poll q])
                  | Inr None \<Rightarrow>
                      (case os_kill env (h1 @ [Poll q, Kill q]) of
                         Some e \<Rightarrow> (Some e, s1, h1 @ [Poll q, Kill q])
                       | None \<Rightarrow> (None, s1, h1 @ [Poll q, Kill q]))))))"

definition stop_force :: "env \<Rightarrow> server \<times> event list \<Rightarrow> (exn + bool) \<times> server \<times> event list" where
  "stop_force env = (\<lambda>(s, h).
     case (case process s of
             None \<Rightarrow> (None, s, h @ [Log WARNING ForcingTermination])
           | Some p \<Rightarrow> terminate_kill env p (s, h @ [Log WARNING ForcingTermination])) of
       (Some e, s', h') \<Rightarrow> (Inl e, s', h')
     | (None, s', h') \<Rightarrow> (Inr True, s'\<lparr>is_running := False\<rparr>, h' @ [Log INFO StoppedForced]))"

text \<open>The \<^verbatim>\<open>try\<close> block of \<^verbatim>\<open>stop\<close>. A negative timeout gives no round.\<close>

definition stop_body ::
  "env \<Rightarrow> int \<Rightarrow> server \<times> event list \<Rightarrow> (exn + bool) \<times> server \<times> event list" where
  "stop_body env timeout \<sigma> =
     (case stop_save env \<sigma> of (s1, h1) \<Rightarrow>
        (case send_command env ''stop'' (s1, h1 @ [Log INFO SendingStop]) of (_, s2, h2) \<Rightarrow>
           (case stop_poll env (nat timeout) (s2, h2) of
              (Inl e, s3, h3) \<Rightarrow> (Inl e, s3, h3)
            | (Inr True, s3, h3) \<Rightarrow> (Inr True, s3, h3)
            | (Inr False, s3, h3) \<Rightarrow> stop_force env (s3, h3))))"

definition stop :: "env \<Rightarrow> int \<Rightarrow> server \<times> event list \<Rightarrow> (exn + bool) \<times> server \<times> event list" where
  "stop env timeout = (\<lambda>(s, h).
     if \<not> is_running s \<or> process s = None then (Inr True, s, h @ [Log WARNING NotRunning])
     else case stop_body env timeout (s, h) of
       (Inl e, s', h') \<Rightarrow> (Inr False, s', h' @ [Log ERROR (StopError e)])
     | (Inr b, s', h') \<Rightarrow> (Inr b, s', h'))"

subsection \<open>is\_server\_running, restart, backup\_world\<close>

text \<open>\<^verbatim>\<open>is_server_running\<close> has no \<^verbatim>\<open>try\<close>: what \<^verbatim>\<open>poll\<close> raises reaches the caller.\<close>

definition is_server_running ::
  "env \<Rightarrow> server \<times> event list \<Rightarrow> (exn + bool) \<times> server \<times> event list" where
  "is_server_running env = (\<lambda>(s, h).
     if \<not> is_running s then (Inr False, s, h)
     else case process s of
       None \<Rightarrow> (Inr False, s, h)
     | Some p \<Rightarrow>
         (case os_poll env (h @ [Poll p]) of
            Inl e \<Rightarrow> (Inl e, s, h @ [Poll p])
          | Inr (Some rc) \<Rightarrow> (Inr False, s\<lparr>is_running := False\<rparr>, h @ [Poll p])
          | Inr None \<Rightarrow> (Inr True, s, h @ [Poll p])))"

definition restart :: "env \<Rightarrow> int \<Rightarrow> server \<times> event list \<Rightarrow> (exn + bool) \<times> server \<times> event list" where
  "restart env timeout = (\<lambda>(s, h).
     case stop env timeout (s, h @ [Log INFO Restarting]) of
       (Inl e, s1, h1) \<Rightarrow> (Inl e, s1, h1)
     | (Inr False, s1, h1) \<Rightarrow> (Inr False, s1, h1 @ [Log ERROR RestartStopFailed])
     | (Inr True, s1, h1) \<Rightarrow> start env (sleep env 5 (s1, h1)))"

text \<open>\<^verbatim>\<open>os.path.join(a, b)\<close> for a relative \<open>b\<close>, with the POSIX separator.\<close>

definition path_join :: "string \<Rightarrow> string \<Rightarrow> string" where
  "path_join a b = (if a = [] \<or> last a = CHR ''/'' then a @ b else a @ ''/'' @ b)"

text \<open>
  The \<^verbatim>\<open>try\<close> block of \<^verbatim>\<open>backup_world\<close>. Writing the archive (the \<^verbatim>\<open>with\<close>
  block over \<^verbatim>\<open>os.walk\<close>) is one event, which succeeds or raises.
\<close>

definition backup_body ::
  "env \<Rightarrow> string \<Rightarrow> server \<times> event list \<Rightarrow> (exn + string) \<times> server \<times> event list" where
  "backup_body env backup_dir = (\<lambda>(s, h).
     let timestamp = os_now env (h @ [Now]);
         backup_file = path_join backup_dir (''world_backup_'' @ timestamp @ ''.zip'')
     in case (if is_running s
              then sleep env 5 (snd (send_command env ''save-all''
                                       (s, h @ [Now, Log INFO SavingBeforeBackup])))
              else (s, h @ [Now])) of
          (s1, h1) \<Rightarrow>
            (case os_zip_world env (h1 @ [Log INFO (CreatingBackup backup_file), ZipWorld backup_file]) of
               Some e \<Rightarrow>
                 (Inl e, s1, h1 @ [Log INFO (CreatingBackup backup_file), ZipWorld backup_file])
             | None \<Rightarrow>
                 (Inr backup_file, s1,
                  h1 @ [Log INFO (CreatingBackup backup_file), ZipWorld backup_file,
                        Log INFO (BackupDone backup_file)])))"

text \<open>
  \<^verbatim>\<open>backup_world\<close>: \<^verbatim>\<open>os.makedirs(backup_dir, exist_ok=True)\<close> stands before the
  \<^verbatim>\<open>try\<close>, so what it raises is not caught. The value \<open>Inr None\<close> is Python's
  \<^verbatim>\<open>None\<close>.
\<close>

definition backup_world ::
  "env \<Rightarrow> string \<Rightarrow> server \<times> event list \<Rightarrow> (exn + string option) \<times> server \<times> event list" where
  "backup_world env backup_dir = (\<lambda>(s, h).
     if \<not> os_path_exists env (h @ [PathExists ''world''])
     then (Inr None, s, h @ [PathExists ''world'', Log ERROR WorldMissing])
     else case os_makedirs env (h @ [PathExists ''world'', Makedirs backup_dir]) of
       Some e \<Rightarrow> (Inl e, s, h @ [PathExists ''world'', Makedirs backup_dir])
     | None \<Rightarrow>
         (case backup_body env backup_dir (s, h @ [PathExists ''world'', Makedirs backup_dir]) of
            (Inl e, s', h') \<Rightarrow> (Inr None, s', h' @ [Log ERROR (BackupError e)])
          | (Inr f, s', h') \<Rightarrow> (Inr (Some f), s', h')))"

section \<open>The admin panel (admin\_panel.py)\<close>

text \<open>
  The panel keeps its process in module globals. The reader thread binds
  \<^verbatim>\<open>server_process.stdout.readline\<close> once, when it starts, so the state of the
  thread carries the handle it reads from: a thread is \<open>Built\<close> (the object exists),
  \<open>Launched\<close> (\<^verbatim>\<open>start()\<close> has returned, the target has not run yet),
  \<open>Reading\<close> from a process, or \<open>Done\<close>.
\<close>

datatype reader_state = Built | Launched | Reading handle | Done

record panel =
  server_process :: "handle option"
  server_output_buffer :: "string list"
  server_output_thread :: "reader_state option"

definition PANEL_SERVER_JAR :: string where
  "PANEL_SERVER_JAR =
     ''C:'' @ [CHR 0x5C] @ ''MinecraftServer'' @ [CHR 0x5C] @ ''1.12.2'' @ [CHR 0x5C] @ ''server.jar''"

definition panel_init :: panel where
  "panel_init = \<lparr> server_process = None, server_output_buffer = [], server_output_thread = None \<rparr>"

text \<open>The panel's \<^verbatim>\<open>is_server_running\<close>; it has no \<^verbatim>\<open>try\<close>.\<close>

definition panel_is_server_running ::
  "env \<Rightarrow> panel \<times> event list \<Rightarrow> (exn + bool) \<times> panel \<times> event list" where
  "panel_is_server_running env = (\<lambda>(g, h).
     case server_process g of
       None \<Rightarrow> (Inr False, g, h)
     | Some p \<Rightarrow>
         (case os_poll env (h @ [Poll p]) of
            Inl e \<Rightarrow> (Inl e, g, h @ [Poll p])
          | Inr r \<Rightarrow> (Inr (r = None), g, h @ [Poll p])))"

text \<open>
  The body of the loop of \<^verbatim>\<open>read_server_output\<close> for one line read: the line is
  stripped; when something is left, the oldest line goes once the buffer holds 100, and
  the line is appended.
\<close>

definition buffer_line :: "string list \<Rightarrow> string \<Rightarrow> string list" where
  "buffer_line buf line =
     (if strip line \<noteq> [] then
        (if length buf \<ge> 100 then tl buf else buf) @ [strip line]
      else buf)"

text \<open>
  The end of \<^verbatim>\<open>read_server_output\<close>, the same after the loop and in the handler:
  \<^verbatim>\<open>terminate()\<close> on the global process, whatever it raises dropped, and the global
  cleared.
\<close>

definition reader_cleanup :: "env \<Rightarrow> panel \<times> event list \<Rightarrow> panel \<times> event list" where
  "reader_cleanup env = (\<lambda>(g, h).
     (g\<lparr>server_process := None, server_output_thread := Some Done\<rparr>,
      case server_process g of None \<Rightarrow> h | Some q \<Rightarrow> h @ [ReaderTerminate q]))"

fun read_server_output :: "env \<Rightarrow> nat \<Rightarrow> panel \<times> event list \<Rightarrow> panel \<times> event list" where
  "read_server_output env 0 (g, h) = (g, h)"
| "read_server_output env (Suc k) (g, h) =
     (case server_output_thread g of
        None \<Rightarrow> (g, h)
      | Some Built \<Rightarrow> (g, h)
      | Some Done \<Rightarrow> (g, h)
      | Some Launched \<Rightarrow>
          (case server_process g of
             None \<Rightarrow> (g\<lparr>server_output_thread := Some Done\<rparr>, h)
           | Some p \<Rightarrow> read_server_output env k (g\<lparr>server_output_thread := Some (Reading p)\<rparr>, h))
      | Some (Reading p) \<Rightarrow>
          (case os_readline env (h @ [Readline p]) of
             Inl e \<Rightarrow> reader_cleanup env (g, h @ [Readline p, Console (PanelReadError e)])
           | Inr line \<Rightarrow>
               if line = [] then reader_cleanup env (g, h @ [Readline p])
               else read_server_output env k
                      (g\<lparr>server_output_buffer := buffer_line (server_output_buffer g) line\<rparr>,
                       if strip line \<noteq> [] then h @ [Readline p, Print (''SERVER: '' @ strip line)]
                       else h @ [Readline p])))"

definition panel_sleep :: "env \<Rightarrow> nat \<Rightarrow> panel \<times> event list \<Rightarrow> panel \<times> event list" where
  "panel_sleep env n = (\<lambda>(g, h).
     read_server_output env (reader_turns env (h @ [Sleep n])) (g, h @ [Sleep n]))"

text \<open>The \<^verbatim>\<open>try\<close> block of \<^verbatim>\<open>start_server\<close>.\<close>

definition start_server_body ::
  "env \<Rightarrow> panel \<times> event list \<Rightarrow> (exn + bool) \<times> panel \<times> event list" where
  "start_server_body env = (\<lambda>(g, h).
     case os_chdir env (h @ [Chdir]) of
       Some e \<Rightarrow> (Inl e, g, h @ [Chdir])
     | None \<Rightarrow>
         (let g1 = g\<lparr>server_output_buffer := []\<rparr>;
              cmd = [''java'', ''-Xmx2G'', ''-Xms1G'', ''-jar'', PANEL_SERVER_JAR, ''nogui'']
          in case os_open_log env (h @ [Chdir, OpenLog]) of
               Some e \<Rightarrow> (Inl e, g1, h @ [Chdir, OpenLog])
             | None \<Rightarrow>
                 (case os_popen env (h @ [Chdir, OpenLog, Popen cmd]) of
                    Some e \<Rightarrow> (Inl e, g1, h @ [Chdir, OpenLog, Popen cmd])
                  | None \<Rightarrow>
                      (let g2 = g1\<lparr>server_process := Some (length h + 2),
                                    server_output_thread := Some Built\<rparr>
                       in case os_thread_start env (h @ [Chdir, OpenLog, Popen cmd, ThreadStart]) of
                            Some e \<Rightarrow> (Inl e, g2, h @ [Chdir, OpenLog, Popen cmd, ThreadStart])
                          | None \<Rightarrow>
                              (Inr True, g2\<lparr>server_output_thread := Some Launched\<rparr>,
                               h @ [Chdir, OpenLog, Popen cmd, ThreadStart, Console PanelStarted])))))"

definition start_server ::
  "env \<Rightarrow> panel \<times> event list \<Rightarrow> (exn + bool) \<times> panel \<times> event list" where
  "start_server env \<sigma> =
     (case panel_is_server_running env \<sigma> of
        (Inl e, g, h) \<Rightarrow> (Inl e, g, h)
      | (Inr True, g, h) \<Rightarrow> (Inr True, g, h @ [Console PanelAlreadyRunning])
      | (Inr False, g, h) \<Rightarrow>
          (case start_server_body env (g, h) of
             (Inl e, g', h') \<Rightarrow> (Inr False, g', h' @ [Console (PanelStartError e)])
           | (Inr b, g', h') \<Rightarrow> (Inr b, g', h')))"

text \<open>The panel's \<^verbatim>\<open>send_command\<close>: the check stands before the \<^verbatim>\<open>try\<close>.\<close>

definition panel_send_command ::
  "env \<Rightarrow> string \<Rightarrow> panel \<times> event list \<Rightarrow> (exn + bool) \<times> panel \<times> event list" where
  "panel_send_command env command \<sigma> =
     (case panel_is_server_running env \<sigma> of
        (Inl e, g, h) \<Rightarrow> (Inl e, g, h)
      | (Inr False, g, h) \<Rightarrow> (Inr False, g, h @ [Console PanelNotRunning])
      | (Inr True, g, h) \<Rightarrow>
          (case server_process g of
             None \<Rightarrow> (Inr False, g, h @ [Console (PanelSendError AttributeError)])
           | Some p \<Rightarrow>
               (case os_write env (h @ [Write p (command @ [CHR 0x0A])]) of
                  Some e \<Rightarrow>
                    (Inr False, g, h @ [Write p (command @ [CHR 0x0A]), Console (PanelSendError e)])
                | None \<Rightarrow>
                    (case os_flush env (h @ [Write p (command @ [CHR 0x0A]), Flush p]) of
                       Some e \<Rightarrow>
                         (Inr False, g,
                          h @ [Write p (command @ [CHR 0x0A]), Flush p, Console (PanelSendError e)])
                     | None \<Rightarrow> (Inr True, g, h @ [Write p (command @ [CHR 0x0A]), Flush p])))))"

text \<open>
  The loop \<^verbatim>\<open>for i in range(10)\<close> of \<^verbatim>\<open>stop_server\<close>; \<open>i\<close> counts the rounds
  done. \<open>Some e\<close> is the exception a poll raised.
\<close>

fun stop_server_wait ::
  "env \<Rightarrow> nat \<Rightarrow> nat \<Rightarrow> panel \<times> event list \<Rightarrow> exn option \<times> panel \<times> event list" where
  "stop_server_wait env 0 i (g, h) = (None, g, h)"
| "stop_server_wait env (Suc n) i (g, h) =
     (case server_process g of
        None \<Rightarrow> (None, g, h)
      | Some p \<Rightarrow>
          (case os_poll env (h @ [Poll p]) of
             Inl e \<Rightarrow> (Some e, g, h @ [Poll p])
           | Inr (Some rc) \<Rightarrow> (None, g, h @ [Poll p])
           | Inr None \<Rightarrow>
               stop_server_wait env n (Suc i)
                 (panel_sleep env 1 (g, h @ [Poll p, Console (PanelWaiting (Suc i))]))))"

text \<open>
  The inner \<^verbatim>\<open>try\<close> of \<^verbatim>\<open>stop_server\<close>: \<^verbatim>\<open>terminate()\<close> and
  \<^verbatim>\<open>wait(timeout=5)\<close>; when one of them raises, \<^verbatim>\<open>kill()\<close>, whose own exception
  is printed and dropped.
\<close>

definition stop_server_terminate :: "env \<Rightarrow> handle \<Rightarrow> event list \<Rightarrow> event list" where
  "stop_server_terminate env p h =
     (let failed = (\<lambda>e h'.
            case os_kill env (h' @ [Console (PanelTerminateError e), Kill p]) of
              Some k \<Rightarrow> h' @ [Console (PanelTerminateError e), Kill p, Console (PanelKillError k)]
            | None \<Rightarrow> h' @ [Console (PanelTerminateError e), Kill p])
      in case os_terminate env (h @ [Terminate p]) of
           Some e \<Rightarrow> failed e (h @ [Terminate p])
         | None \<Rightarrow>
             (case os_wait env (h @ [Terminate p, Wait p 5]) of
                Some e \<Rightarrow> failed e (h @ [Terminate p, Wait p 5])
              | None \<Rightarrow> h @ [Terminate p, Wait p 5]))"

text \<open>The outer \<^verbatim>\<open>try\<close> block of \<^verbatim>\<open>stop_server\<close>.\<close>

definition stop_server_body ::
  "env \<Rightarrow> panel \<times> event list \<Rightarrow> (exn + bool) \<times> panel \<times> event list" where
  "stop_server_body env = (\<lambda>(g, h).
     case panel_send_command env ''stop'' (g, h @ [Console PanelSendingStop]) of
       (Inl e, g1, h1) \<Rightarrow> (Inl e, g1, h1)
     | (Inr success, g1, h1) \<Rightarrow>
         (case (if success then stop_server_wait env 10 0 (g1, h1) else (None, g1, h1)) of
            (Some e, g2, h2) \<Rightarrow> (Inl e, g2, h2)
          | (None, g2, h2) \<Rightarrow>
              (case server_process g2 of
                 None \<Rightarrow> (Inr True, g2\<lparr>server_process := None\<rparr>, h2 @ [Console PanelStopped])
               | Some p \<Rightarrow>
                   (case os_poll env (h2 @ [Poll p]) of
                      Inl e \<Rightarrow> (Inl e, g2, h2 @ [Poll p])
                    | Inr (Some rc) \<Rightarrow>
                        (Inr True, g2\<lparr>server_process := None\<rparr>, h2 @ [Poll p, Console PanelStopped])
                    | Inr None \<Rightarrow>
                        (Inr True, g2\<lparr>server_process := None\<rparr>,
                         stop_server_terminate env p (h2 @ [Poll p, Console PanelStillRunning])
                           @ [Console PanelStopped])))))"

text \<open>
  \<^verbatim>\<open>stop_server\<close>. The check before the \<^verbatim>\<open>try\<close> and the poll in the handler are
  outside any \<^verbatim>\<open>try\<close>: what they raise reaches the caller.
\<close>

definition stop_server ::
  "env \<Rightarrow> panel \<times> event list \<Rightarrow> (exn + bool) \<times> panel \<times> event list" where
  "stop_server env \<sigma> =
     (case panel_is_server_running env \<sigma> of
        (Inl e, g, h) \<Rightarrow> (Inl e, g, h)
      | (Inr False, g, h) \<Rightarrow> (Inr True, g\<lparr>server_process := None\<rparr>, h @ [Console PanelNotRunning])
      | (Inr True, g, h) \<Rightarrow>
          (case stop_server_body env (g, h) of
             (Inr b, g', h') \<Rightarrow> (Inr b, g', h')
           | (Inl e, g', h') \<Rightarrow>
               (case server_process g' of
                  None \<Rightarrow> (Inr False, g', h' @ [Console (PanelStopError e)])
                | Some p \<Rightarrow>
                    (case os_poll env (h' @ [Console (PanelStopError e), Poll p]) of
                       Inl e' \<Rightarrow> (Inl e', g', h' @ [Console (PanelStopError e), Poll p])
                     | Inr (Some rc) \<Rightarrow> (Inr False, g', h' @ [Console (PanelStopError e), Poll p])
                     | Inr None \<Rightarrow>
                         (case os_kill env (h' @ [Console (PanelStopError e), Poll p, Kill p]) of
                            Some k \<Rightarrow> (Inr False, g', h' @ [Console (PanelStopError e), Poll p, Kill p])
                          | None \<Rightarrow>
                              (Inr False, g'\<lparr>server_process := None\<rparr>,
                               h' @ [Console (PanelStopError e), Poll p, Kill p]))))))"

definition restart_server ::
  "env \<Rightarrow> panel \<times> event list \<Rightarrow> (exn + bool) \<times> panel \<times> event list" where
  "restart_server env \<sigma> =
     (case stop_server env \<sigma> of
        (Inl e, g, h) \<Rightarrow> (Inl e, g, h)
      | (Inr False, g, h) \<Rightarrow> (Inr False, g, h)
      | (Inr True, g, h) \<Rightarrow> start_server env (panel_sleep env 2 (g, h)))"

section \<open>Reading a run\<close>

text \<open>The events of a run that create a child process, and the ones that write to it.\<close>

fun is_spawn :: "event \<Rightarrow> bool" where
  "is_spawn (Popen cmd) = True"
| "is_spawn e = False"

fun is_pipe_write :: "event \<Rightarrow> bool" where
  "is_pipe_write (Write p x) = True"
| "is_pipe_write (Flush p) = True"
| "is_pipe_write e = False"

fun is_signal :: "event \<Rightarrow> bool" where
  "is_signal (Terminate p) = True"
| "is_signal (Kill p) = True"
| "is_signal (ReaderTerminate p) = True"
| "is_signal e = False"

text \<open>
  An environment where every call succeeds and the child neither exits nor prints, and a
  supervisor as the module's \<^verbatim>\<open>__main__\<close> block builds it.
\<close>

definition quiet_env :: env where
  "quiet_env = \<lparr> os_popen = (\<lambda>h. None), os_thread_start = (\<lambda>h. None),
      os_write = (\<lambda>h. None), os_flush = (\<lambda>h. None), os_poll = (\<lambda>h. Inr None),
      os_terminate = (\<lambda>h. None), os_kill = (\<lambda>h. None), os_wait = (\<lambda>h. None),
      os_readline = (\<lambda>h. Inr []), reader_turns = (\<lambda>h. 0), os_path_exists = (\<lambda>h. True),
      os_makedirs = (\<lambda>h. None), os_now = (\<lambda>h. ''20240101_120000''),
      os_zip_world = (\<lambda>h. None), os_chdir = (\<lambda>h. None), os_open_log = (\<lambda>h. None) \<rparr>"

definition fresh_server :: server where
  "fresh_server = fst (MinecraftServer_init quiet_env SERVER_JAR MIN_RAM MAX_RAM JAVA_PATH SERVER_PORT [])"

definition running_server :: server where
  "running_server = fresh_server\<lparr>process := Some 1, is_running := True, output_thread := Some Active\<rparr>"

text \<open>
  Variations: a child that has exited (every poll reports exit code 0), a child whose
  pipe is closed (every write raises \<^verbatim>\<open>BrokenPipeError\<close>) and that has exited, and a
  file system where \<^verbatim>\<open>os.makedirs('')\<close> raises \<^verbatim>\<open>FileNotFoundError\<close>, as it does
  for the empty path.
\<close>

definition exited_env :: env where
  "exited_env = quiet_env\<lparr>os_poll := (\<lambda>h. Inr (Some 0)), reader_turns := (\<lambda>h. 1)\<rparr>"

definition broken_pipe_env :: env where
  "broken_pipe_env = quiet_env\<lparr>os_write := (\<lambda>h. Some BrokenPipeError), os_poll := (\<lambda>h. Inr (Some 0))\<rparr>"

definition no_spawn_env :: env where
  "no_spawn_env = quiet_env\<lparr>os_popen := (\<lambda>h. Some FileNotFoundError)\<rparr>"

definition empty_path_env :: env where
  "empty_path_env =
     quiet_env\<lparr>os_makedirs := (\<lambda>h. if h \<noteq> [] \<and> last h = Makedirs [] then Some FileNotFoundError else None)\<rparr>"

text \<open>The waits of the calling thread.\<close>

fun is_sleep :: "event \<Rightarrow> bool" where
  "is_sleep (Sleep n) = True"
| "is_sleep e = False"

text \<open>
  A child that stays alive while reading its output raises (bytes that do not decode),
  and a system that cannot start another thread.
\<close>

definition deaf_env :: env where
  "deaf_env = quiet_env\<lparr>os_readline := (\<lambda>h. Inl UnicodeDecodeError), reader_turns := (\<lambda>h. 1)\<rparr>"

definition no_thread_env :: env where
  "no_thread_env = quiet_env\<lparr>os_thread_start := (\<lambda>h. Some RuntimeError)\<rparr>"

text \<open>A child that stays alive and keeps printing a line that is not the readiness line.\<close>

definition slow_env :: env where
  "slow_env = quiet_env\<lparr>os_readline := (\<lambda>h. Inr (''Preparing spawn area'' @ [CHR 0x0A])),
                         reader_turns := (\<lambda>h. 2)\<rparr>"

text \<open>
  A supervisor that waits for its child: marked running, with a process, and no
  readiness line in the console log.
\<close>

definition starting :: "server \<Rightarrow> bool" where
  "starting s = (is_running s \<and> process s \<noteq> None \<and> \<not> list_ex ready_line (console_log s))"

text \<open>
  The public operations of a supervisor as calls, and a run of calls. Between two calls
  the reader thread may run; \<open>ReaderRuns k\<close> is the thread taking \<open>k\<close> turns.
\<close>

datatype call =
    Start
  | Stop int
  | SendCommand string
  | IsServerRunning
  | Restart int
  | BackupWorld string
  | ReaderRuns nat

fun do_call :: "env \<Rightarrow> server \<times> event list \<Rightarrow> call \<Rightarrow> server \<times> event list" where
  "do_call env \<sigma> Start = snd (start env \<sigma>)"
| "do_call env \<sigma> (Stop timeout) = snd (stop env timeout \<sigma>)"
| "do_call env \<sigma> (SendCommand command) = snd (send_command env command \<sigma>)"
| "do_call env \<sigma> IsServerRunning = snd (is_server_running env \<sigma>)"
| "do_call env \<sigma> (Restart timeout) = snd (restart env timeout \<sigma>)"
| "do_call env \<sigma> (BackupWorld backup_dir) = snd (backup_world env backup_dir \<sigma>)"
| "do_call env \<sigma> (ReaderRuns k) = capture_output env k \<sigma>"

definition run_calls :: "env \<Rightarrow> call list \<Rightarrow> server \<times> event list \<Rightarrow> server \<times> event list" where
  "run_calls env calls \<sigma> = foldl (do_call env) \<sigma> calls"

text \<open>
  A child that prints the readiness line and exits once it has been sent
  \<^verbatim>\<open>stop\<close>.
\<close>

definition obedient_env :: env where
  "obedient_env = quiet_env\<lparr>
     os_readline := (\<lambda>h. Inr (''Done (3.2s)! For help, type help'' @ [CHR 0x0A])),
     reader_turns := (\<lambda>h. 1),
     os_poll := (\<lambda>h. if Write 1 (''stop'' @ [CHR 0x0A]) \<in> set h then Inr (Some 0) else Inr None)\<rparr>"

text \<open>
  \<open>quieter s s'\<close>: from \<open>s\<close> to \<open>s'\<close> the process handle is the same and
  \<^verbatim>\<open>is_running\<close> has not been switched on. \<open>handle_inv\<close> is the half of the
  invariant of the handle that the code keeps.
\<close>

definition quieter :: "server \<Rightarrow> server \<Rightarrow> bool" where
  "quieter s s' = (process s' = process s \<and> (is_running s' \<longrightarrow> is_running s))"

definition handle_inv :: "server \<Rightarrow> bool" where
  "handle_inv s = (is_running s \<longrightarrow> process s \<noteq> None)"




text \<open>
  What the polls of the calling thread were answered: \<open>poll_answers env h new\<close> goes
  through the events \<open>new\<close> that followed the run \<open>h\<close> and asks the environment again
  at each \<^verbatim>\<open>poll()\<close> of the calling thread. An answer is \<open>alive\<close> when it is
  \<^verbatim>\<open>None\<close>.
\<close>

definition alive :: "exn + int option \<Rightarrow> bool" where
  "alive a = (a = Inr None)"









section \<open>Starting a server that runs\<close>

text \<open>
  C1. A call of \<^verbatim>\<open>start()\<close> on a supervisor whose \<^verbatim>\<open>is_running\<close> is set returns
  \<^verbatim>\<open>True\<close> at once: the supervisor (process, output thread, console log) is the same
  after the call and the only event is the warning in the log, so no process is spawned.
  The panel's \<^verbatim>\<open>start_server()\<close> does the same when its process exists and
  \<^verbatim>\<open>poll()\<close> finds it alive: it polls, prints its notice and returns \<^verbatim>\<open>True\<close>, the
  globals unchanged.
\<close>

theorem start_when_running_is_noop:
  "(is_running s \<longrightarrow>
      start env (s, h) = (Inr True, s, h @ [Log WARNING AlreadyRunning]) \<and>
      filter is_spawn (snd (snd (start env (s, h)))) = filter is_spawn h) \<and>
   (server_process g = Some p \<and> os_poll env (h @ [Poll p]) = Inr None \<longrightarrow>
      start_server env (g, h) = (Inr True, g, h @ [Poll p, Console PanelAlreadyRunning]) \<and>
      filter is_spawn (snd (snd (start_server env (g, h)))) = filter is_spawn h)"
  by (simp add: start_def start_server_def panel_is_server_running_def)

theorem start_when_running_is_noop_witness:
  "is_running running_server \<and>
   start quiet_env (running_server, []) = (Inr True, running_server, [Log WARNING AlreadyRunning]) \<and>
   server_process (panel_init\<lparr>server_process := Some 2\<rparr>) = Some 2 \<and>
   os_poll quiet_env ([] @ [Poll 2]) = Inr None \<and>
   start_server quiet_env (panel_init\<lparr>server_process := Some 2\<rparr>, []) =
     (Inr True, panel_init\<lparr>server_process := Some 2\<rparr>, [Poll 2, Console PanelAlreadyRunning])"
  using start_when_running_is_noop [of running_server quiet_env "[]" "panel_init\<lparr>server_process := Some 2\<rparr>" 2]
  by (simp add: running_server_def quiet_env_def)

section \<open>Operations on a server that does not run\<close>

lemma capture_output_finished:
  "output_thread s = Some Active \<Longrightarrow> capture_output env k (s, h) = (s', h') \<Longrightarrow>
   output_thread s' = Some Finished \<Longrightarrow> \<not> is_running s'"
proof (induction k arbitrary: s h)
  case 0
  then show ?case by simp
next
  case (Suc k)
  show ?case
  proof (cases "is_running s \<and> (\<exists>p line. process s = Some p \<and> os_poll env (h @ [ReaderPoll p]) = Inr None
                  \<and> os_readline env (h @ [ReaderPoll p, Readline p]) = Inr line)")
    case True
    then obtain p line where pl: "is_running s" "process s = Some p"
        "os_poll env (h @ [ReaderPoll p]) = Inr None"
        "os_readline env (h @ [ReaderPoll p, Readline p]) = Inr line"
      by blast
    have act: "output_thread (capture_line s line) = Some Active"
      using Suc.prems(1) by (simp add: capture_line_def Let_def)
    from Suc.prems(2) pl Suc.prems(1)
    have "capture_output env k (capture_line s line,
            if line \<noteq> [] then h @ [ReaderPoll p, Readline p, Log DEBUG (ServerLine (strip line))]
            else h @ [ReaderPoll p, Readline p]) = (s', h')"
      by simp
    from Suc.IH [OF act this Suc.prems(3)] show ?thesis .
  next
    case False
    with Suc.prems show ?thesis
      by (auto split: if_splits option.splits sum.splits)
  qed
qed

text \<open>
  C4. When \<^verbatim>\<open>is_running\<close> is false or there is no process, \<^verbatim>\<open>stop()\<close> returns
  \<^verbatim>\<open>True\<close> at once, the supervisor unchanged; the only event is the warning in the
  log, so nothing is written to a pipe and no signal is sent. That is the case after the
  reader thread has ended on its own (the child exited): it leaves \<^verbatim>\<open>is_running\<close>
  false.
\<close>

theorem stop_when_not_running_is_noop:
  "(\<not> is_running s \<or> process s = None \<longrightarrow>
      stop env timeout (s, h) = (Inr True, s, h @ [Log WARNING NotRunning])) \<and>
   (output_thread s0 = Some Active \<and> capture_output env k (s0, h0) = (s1, h1) \<and>
    output_thread s1 = Some Finished \<longrightarrow>
      stop env timeout (s1, h1) = (Inr True, s1, h1 @ [Log WARNING NotRunning]) \<and>
      filter is_pipe_write (snd (snd (stop env timeout (s1, h1)))) = filter is_pipe_write h1 \<and>
      filter is_signal (snd (snd (stop env timeout (s1, h1)))) = filter is_signal h1)"
proof -
  have a: "\<not> is_running s \<or> process s = None \<Longrightarrow>
      stop env timeout (s, h) = (Inr True, s, h @ [Log WARNING NotRunning])" for s h
    by (auto simp: stop_def)
  have b: "output_thread s0 = Some Active \<Longrightarrow> capture_output env k (s0, h0) = (s1, h1) \<Longrightarrow>
      output_thread s1 = Some Finished \<Longrightarrow> \<not> is_running s1"
    by (rule capture_output_finished)
  show ?thesis using a b by auto
qed

theorem stop_when_not_running_is_noop_witness:
  "\<not> is_running fresh_server \<and>
   stop quiet_env 30 (fresh_server, []) = (Inr True, fresh_server, [Log WARNING NotRunning]) \<and>
   output_thread running_server = Some Active \<and>
   capture_output exited_env 1 (running_server, []) =
     (running_server\<lparr>is_running := False, output_thread := Some Finished\<rparr>,
      [ReaderPoll 1, Log INFO ServerHasStopped]) \<and>
   stop exited_env 30 (running_server\<lparr>is_running := False, output_thread := Some Finished\<rparr>,
                       [ReaderPoll 1, Log INFO ServerHasStopped]) =
     (Inr True, running_server\<lparr>is_running := False, output_thread := Some Finished\<rparr>,
      [ReaderPoll 1, Log INFO ServerHasStopped, Log WARNING NotRunning])"
proof -
  have f: "\<not> is_running fresh_server"
    by (simp add: fresh_server_def MinecraftServer_init_def Let_def)
  have c: "capture_output exited_env 1 (running_server, []) =
     (running_server\<lparr>is_running := False, output_thread := Some Finished\<rparr>,
      [ReaderPoll 1, Log INFO ServerHasStopped])"
    by (simp add: running_server_def exited_env_def quiet_env_def)
  have a: "output_thread running_server = Some Active"
    by (simp add: running_server_def)
  show ?thesis
    using stop_when_not_running_is_noop [of fresh_server quiet_env 30 "[]"]
      stop_when_not_running_is_noop [of _ exited_env 30 _ running_server 1 "[]"
        "running_server\<lparr>is_running := False, output_thread := Some Finished\<rparr>"
        "[ReaderPoll 1, Log INFO ServerHasStopped]"] f c a
    by simp
qed

text \<open>
  C5. When \<^verbatim>\<open>is_running\<close> is false or there is no process, \<^verbatim>\<open>send_command\<close>
  returns \<^verbatim>\<open>False\<close>, logs that the server does not run and leaves the supervisor as
  it was: no \<^verbatim>\<open>write\<close> and no \<^verbatim>\<open>flush\<close> reaches a pipe. The panel's
  \<^verbatim>\<open>send_command\<close> does the same when it has no process, and when \<^verbatim>\<open>poll()\<close>
  reports that its process has exited.
\<close>

theorem send_command_not_running:
  "(\<not> is_running s \<or> process s = None \<longrightarrow>
      send_command env command (s, h) = (Inr False, s, h @ [Log ERROR CannotSend]) \<and>
      filter is_pipe_write (snd (snd (send_command env command (s, h)))) = filter is_pipe_write h) \<and>
   (server_process g = None \<longrightarrow>
      panel_send_command env command (g, h) = (Inr False, g, h @ [Console PanelNotRunning])) \<and>
   (server_process g = Some p \<and> os_poll env (h @ [Poll p]) = Inr (Some rc) \<longrightarrow>
      panel_send_command env command (g, h) = (Inr False, g, h @ [Poll p, Console PanelNotRunning]) \<and>
      filter is_pipe_write (snd (snd (panel_send_command env command (g, h)))) = filter is_pipe_write h)"
  by (auto simp: send_command_def panel_send_command_def panel_is_server_running_def
           split: option.splits)

theorem send_command_not_running_witness:
  "\<not> is_running fresh_server \<and>
   send_command quiet_env ''list'' (fresh_server, []) = (Inr False, fresh_server, [Log ERROR CannotSend]) \<and>
   server_process panel_init = None \<and>
   panel_send_command quiet_env ''list'' (panel_init, []) = (Inr False, panel_init, [Console PanelNotRunning]) \<and>
   os_poll exited_env ([] @ [Poll 2]) = Inr (Some 0) \<and>
   panel_send_command exited_env ''list'' (panel_init\<lparr>server_process := Some 2\<rparr>, []) =
     (Inr False, panel_init\<lparr>server_process := Some 2\<rparr>, [Poll 2, Console PanelNotRunning])"
proof -
  have f: "\<not> is_running fresh_server"
    by (simp add: fresh_server_def MinecraftServer_init_def Let_def)
  have p: "os_poll exited_env ([] @ [Poll 2]) = Inr (Some 0)"
    by (simp add: exited_env_def quiet_env_def)
  have n: "server_process panel_init = None"
    by (simp add: panel_init_def)
  show ?thesis
    using send_command_not_running [of fresh_server quiet_env "''list''" "[]" panel_init]
      send_command_not_running [of fresh_server exited_env "''list''" "[]"
        "panel_init\<lparr>server_process := Some 2\<rparr>" 2 0] f p n
    by simp
qed

section \<open>Failures of the operating system\<close>

text \<open>
  C7. When \<^verbatim>\<open>subprocess.Popen\<close> raises in a \<^verbatim>\<open>start()\<close> that found the server
  not running, \<^verbatim>\<open>start()\<close> returns \<^verbatim>\<open>False\<close>, \<^verbatim>\<open>is_running\<close> is false after
  the call and the call has stored no process handle: \<^verbatim>\<open>self.process\<close> is what it was
  before (\<^verbatim>\<open>None\<close> on a new supervisor), and no reader thread was started.
\<close>

theorem start_spawn_failure:
  "\<not> is_running s \<and>
   os_popen env (h @ [Log INFO (StartingWithCommand (launch_command s)), Popen (launch_command s)]) = Some e
   \<longrightarrow>
     start env (s, h) =
       (Inr False, s\<lparr>is_running := False\<rparr>,
        h @ [Log INFO (StartingWithCommand (launch_command s)), Popen (launch_command s),
             Log ERROR (StartError e)]) \<and>
     \<not> is_running (fst (snd (start env (s, h)))) \<and>
     process (fst (snd (start env (s, h)))) = process s \<and>
     output_thread (fst (snd (start env (s, h)))) = output_thread s"
  by (simp add: start_def start_body_def Let_def)

theorem start_spawn_failure_witness:
  "\<not> is_running fresh_server \<and>
   os_popen no_spawn_env ([] @ [Log INFO (StartingWithCommand (launch_command fresh_server)),
                                Popen (launch_command fresh_server)]) = Some FileNotFoundError \<and>
   fst (start no_spawn_env (fresh_server, [])) = Inr False \<and>
   \<not> is_running (fst (snd (start no_spawn_env (fresh_server, [])))) \<and>
   process (fst (snd (start no_spawn_env (fresh_server, [])))) = None"
proof -
  have f: "\<not> is_running fresh_server" "process fresh_server = None"
    by (simp_all add: fresh_server_def MinecraftServer_init_def Let_def)
  have p: "os_popen no_spawn_env ([] @ [Log INFO (StartingWithCommand (launch_command fresh_server)),
                                Popen (launch_command fresh_server)]) = Some FileNotFoundError"
    by (simp add: no_spawn_env_def quiet_env_def)
  show ?thesis
    using start_spawn_failure [of fresh_server no_spawn_env "[]" FileNotFoundError] f p
    by simp
qed

text \<open>
  C9, as the claim states it, fails: \<^verbatim>\<open>send_command\<close> runs no check of the process
  after a write has failed. Here the child has exited (every poll would report it) and
  its pipe is closed; the call returns \<^verbatim>\<open>False\<close>, polls nothing, and
  \<^verbatim>\<open>is_running\<close> is still true after it.
\<close>

theorem send_command_broken_pipe_counterexample:
  "is_running running_server \<and>
   send_command broken_pipe_env ''list'' (running_server, []) =
     (Inr False, running_server,
      [Write 1 (''list'' @ [CHR 0x0A]), Log ERROR (SendError BrokenPipeError)]) \<and>
   is_running (fst (snd (send_command broken_pipe_env ''list'' (running_server, []))))"
  by (simp add: send_command_def running_server_def broken_pipe_env_def quiet_env_def)

text \<open>
  C9, amended. When the write (or the flush) to the child's input raises,
  \<^verbatim>\<open>send_command\<close> catches the exception, logs it and returns \<^verbatim>\<open>False\<close>, the value
  it also returns for a server that does not run; no exception reaches the caller. The
  supervisor is left as it was, \<^verbatim>\<open>is_running\<close> still true: the state is put right
  later, by the reader thread or by \<^verbatim>\<open>is_server_running()\<close>.
\<close>

theorem send_command_write_failure:
  "(is_running s \<and> process s = Some p \<and>
    os_write env (h @ [Write p (command @ [CHR 0x0A])]) = Some e \<longrightarrow>
      send_command env command (s, h) =
        (Inr False, s, h @ [Write p (command @ [CHR 0x0A]), Log ERROR (SendError e)])) \<and>
   (is_running s \<and> process s = Some p \<and>
    os_write env (h @ [Write p (command @ [CHR 0x0A])]) = None \<and>
    os_flush env (h @ [Write p (command @ [CHR 0x0A]), Flush p]) = Some e \<longrightarrow>
      send_command env command (s, h) =
        (Inr False, s, h @ [Write p (command @ [CHR 0x0A]), Flush p, Log ERROR (SendError e)]))"
  by (simp add: send_command_def)

theorem send_command_write_failure_witness:
  "is_running running_server \<and> process running_server = Some 1 \<and>
   os_write broken_pipe_env ([] @ [Write 1 (''list'' @ [CHR 0x0A])]) = Some BrokenPipeError \<and>
   send_command broken_pipe_env ''list'' (running_server, []) =
     (Inr False, running_server,
      [] @ [Write 1 (''list'' @ [CHR 0x0A]), Log ERROR (SendError BrokenPipeError)])"
proof -
  have r: "is_running running_server" "process running_server = Some 1"
    by (simp_all add: running_server_def)
  have w: "os_write broken_pipe_env ([] @ [Write 1 (''list'' @ [CHR 0x0A])]) = Some BrokenPipeError"
    by (simp add: broken_pipe_env_def quiet_env_def)
  show ?thesis
    using send_command_write_failure [of running_server 1 broken_pipe_env "[]" "''list''" BrokenPipeError] r w
    by blast
qed

subsection \<open>Exceptions that reach the caller\<close>

lemma start_returns: "\<exists>b. fst (start env \<sigma>) = Inr b"
  by (cases \<sigma>) (auto simp: start_def split: prod.splits sum.splits)

lemma send_command_returns: "\<exists>b. fst (send_command env command \<sigma>) = Inr b"
  by (cases \<sigma>) (auto simp: send_command_def split: option.splits)

lemma stop_returns: "\<exists>b. fst (stop env timeout \<sigma>) = Inr b"
  by (cases \<sigma>) (auto simp: stop_def split: prod.splits sum.splits)

lemma backup_world_after_makedirs:
  "os_path_exists env (h @ [PathExists ''world'']) \<Longrightarrow>
   os_makedirs env (h @ [PathExists ''world'', Makedirs backup_dir]) = None \<Longrightarrow>
   \<exists>r. fst (backup_world env backup_dir (s, h)) = Inr r"
  by (auto simp: backup_world_def split: prod.splits sum.splits)

text \<open>
  C10. \<^verbatim>\<open>start\<close>, \<^verbatim>\<open>stop\<close> and \<^verbatim>\<open>send_command\<close> return a value whatever the
  environment does (the three lemmas above), and \<^verbatim>\<open>backup_world\<close> does once
  \<^verbatim>\<open>os.makedirs\<close> has succeeded. But \<^verbatim>\<open>os.makedirs(backup_dir, exist_ok=True)\<close>
  stands before the \<^verbatim>\<open>try\<close>: with the world directory present and
  \<^verbatim>\<open>backup_dir = ''\<close>, \<^verbatim>\<open>FileNotFoundError\<close> reaches the caller of
  \<^verbatim>\<open>backup_world\<close>, whose docstring promises \<^verbatim>\<open>None\<close> on an error.
\<close>

theorem backup_world_makedirs_raises:
  "backup_world empty_path_env [] (fresh_server, []) =
     (Inl FileNotFoundError, fresh_server, [PathExists ''world'', Makedirs []])"
  by (simp add: backup_world_def empty_path_env_def quiet_env_def)

section \<open>The console ring\<close>

lemma drop_snoc_le: "n \<le> length xs \<Longrightarrow> drop n xs @ [y] = drop n (xs @ [y])"
  by simp

lemma tl_drop_Suc: "tl (drop n zs) = drop (Suc n) zs"
  by (simp add: drop_Suc tl_drop)

lemma ring_step:
  "(if m < length (drop (length xs - m) xs @ [y]) then tl (drop (length xs - m) xs @ [y])
    else drop (length xs - m) xs @ [y]) = drop (Suc (length xs) - m) (xs @ [y])"
proof (cases "m \<le> length xs")
  case True
  then have e: "Suc (length xs) - m = Suc (length xs - m)" by simp
  have "tl (drop (length xs - m) xs @ [y]) = tl (drop (length xs - m) (xs @ [y]))"
    by simp
  also have "\<dots> = drop (Suc (length xs - m)) (xs @ [y])"
    by (rule tl_drop_Suc)
  finally have t: "tl (drop (length xs - m) xs @ [y]) = drop (Suc (length xs) - m) (xs @ [y])"
    using e by simp
  have "m < length (drop (length xs - m) xs @ [y])" using True by simp
  with t show ?thesis by presburger
next
  case False
  then show ?thesis by simp
qed

lemma ring_step_pre:
  "0 < c \<Longrightarrow> (if c \<le> length (drop (length xs - c) xs) then tl (drop (length xs - c) xs)
    else drop (length xs - c) xs) @ [y] = drop (Suc (length xs) - c) (xs @ [y])"
proof (cases "c \<le> length xs")
  case True
  assume "0 < c"
  from True have e: "Suc (length xs) - c = Suc (length xs - c)" by simp
  have "tl (drop (length xs - c) xs) @ [y] = drop (Suc (length xs - c)) xs @ [y]"
    by (simp only: tl_drop_Suc)
  also have "\<dots> = drop (Suc (length xs - c)) (xs @ [y])"
    using True \<open>0 < c\<close> by simp
  finally have t: "tl (drop (length xs - c) xs) @ [y] = drop (Suc (length xs) - c) (xs @ [y])"
    using e by simp
  have "c \<le> length (drop (length xs - c) xs)" using True by simp
  with t show ?thesis by presburger
next
  case False
  then show ?thesis by simp
qed

lemma capture_line_max: "max_console_lines (capture_line s l) = max_console_lines s"
  by (simp add: capture_line_def Let_def)

lemma foldl_capture_line_max: "max_console_lines (foldl capture_line s ls) = max_console_lines s"
  by (induction ls arbitrary: s) (simp_all add: capture_line_max)

lemma capture_line_window:
  assumes "0 \<le> max_console_lines s"
    and "console_log s = drop (length xs - nat (max_console_lines s)) xs"
    and "l \<noteq> []"
  shows "console_log (capture_line s l) =
           drop (Suc (length xs) - nat (max_console_lines s)) (xs @ [strip l])"
proof -
  let ?m = "nat (max_console_lines s)"
  have "console_log (capture_line s l) =
          (if ?m < length (drop (length xs - ?m) xs @ [strip l])
           then tl (drop (length xs - ?m) xs @ [strip l])
           else drop (length xs - ?m) xs @ [strip l])"
    using assms by (auto simp add: capture_line_def Let_def simp del: length_drop)
  then show ?thesis by (simp only: ring_step)
qed

lemma foldl_capture_line_window:
  assumes "int (length (console_log s)) \<le> max_console_lines s"
  shows "console_log (foldl capture_line s ls) =
           drop (length (console_log s @ map strip (filter (\<lambda>l. l \<noteq> []) ls)) - nat (max_console_lines s))
                (console_log s @ map strip (filter (\<lambda>l. l \<noteq> []) ls))"
proof (induction ls rule: rev_induct)
  case Nil
  from assms show ?case by simp
next
  case (snoc l ls)
  let ?S = "foldl capture_line s ls"
  let ?xs = "console_log s @ map strip (filter (\<lambda>l. l \<noteq> []) ls)"
  have m: "max_console_lines ?S = max_console_lines s" by (rule foldl_capture_line_max)
  have nn: "0 \<le> max_console_lines ?S" using assms m by linarith
  show ?case
  proof (cases "l = []")
    case True
    then show ?thesis using snoc by (simp add: capture_line_def)
  next
    case False
    have "console_log (capture_line ?S l) =
            drop (Suc (length ?xs) - nat (max_console_lines ?S)) (?xs @ [strip l])"
      by (rule capture_line_window [OF nn _ False]) (simp only: m snoc)
    then show ?thesis using False by (simp add: m)
  qed
qed

lemma buffer_line_window:
  assumes "buf = drop (length xs - 100) xs" and "strip l \<noteq> []"
  shows "buffer_line buf l = drop (Suc (length xs) - 100) (xs @ [strip l])"
proof -
  have "buffer_line buf l =
          (if 100 \<le> length (drop (length xs - 100) xs) then tl (drop (length xs - 100) xs)
           else drop (length xs - 100) xs) @ [strip l]"
    using assms by (simp add: buffer_line_def del: length_drop)
  moreover have "(0::nat) < 100" by simp
  ultimately show ?thesis by (simp only: ring_step_pre)
qed

lemma foldl_buffer_line_window:
  assumes "length buf \<le> 100"
  shows "foldl buffer_line buf ls =
           drop (length (buf @ filter (\<lambda>l. l \<noteq> []) (map strip ls)) - 100)
                (buf @ filter (\<lambda>l. l \<noteq> []) (map strip ls))"
proof (induction ls rule: rev_induct)
  case Nil
  from assms show ?case by simp
next
  case (snoc l ls)
  let ?xs = "buf @ filter (\<lambda>l. l \<noteq> []) (map strip ls)"
  show ?case
  proof (cases "strip l = []")
    case True
    then show ?thesis using snoc by (simp add: buffer_line_def)
  next
    case False
    have "buffer_line (foldl buffer_line buf ls) l = drop (Suc (length ?xs) - 100) (?xs @ [strip l])"
      by (rule buffer_line_window [OF _ False]) (simp only: snoc)
    then show ?thesis using False by simp
  qed
qed

lemma capture_line_bound:
  "int (length (console_log s)) \<le> max_console_lines s \<Longrightarrow>
   int (length (console_log (capture_line s l))) \<le> max_console_lines s"
  by (auto simp: capture_line_def Let_def)

lemma capture_line_fields:
  "output_thread (capture_line s l) = output_thread s"
  "is_running (capture_line s l) = is_running s"
  "process (capture_line s l) = process s"
  by (simp_all add: capture_line_def Let_def)

lemma capture_output_bound:
  "int (length (console_log s)) \<le> max_console_lines s \<Longrightarrow>
   int (length (console_log (fst (capture_output env k (s, h))))) \<le> max_console_lines s \<and>
   max_console_lines (fst (capture_output env k (s, h))) = max_console_lines s"
proof (induction k arbitrary: s h)
  case 0
  then show ?case by simp
next
  case (Suc k)
  have step: "int (length (console_log (fst (capture_output env k (capture_line s l, h'))))) \<le> max_console_lines s \<and>
      max_console_lines (fst (capture_output env k (capture_line s l, h'))) = max_console_lines s" for l h'
    using Suc.IH [of "capture_line s l" h'] capture_line_bound [OF Suc.prems, of l]
    by (simp add: capture_line_max)
  show ?case
    using Suc.prems by (simp add: step split: option.splits sum.splits)
qed

lemma buffer_line_bound: "length buf \<le> 100 \<Longrightarrow> length (buffer_line buf l) \<le> 100"
  by (auto simp: buffer_line_def)

lemma read_server_output_bound:
  "length (server_output_buffer g) \<le> 100 \<Longrightarrow>
   length (server_output_buffer (fst (read_server_output env k (g, h)))) \<le> 100"
proof (induction k arbitrary: g h)
  case 0
  then show ?case by simp
next
  case (Suc k)
  have a: "length (server_output_buffer (fst (read_server_output env k
             (g\<lparr>server_output_buffer := buffer_line (server_output_buffer g) l\<rparr>, h')))) \<le> 100" for l h'
    using Suc.IH [of "g\<lparr>server_output_buffer := buffer_line (server_output_buffer g) l\<rparr>" h']
      buffer_line_bound [OF Suc.prems, of l] by simp
  have b: "length (server_output_buffer (fst (read_server_output env k
             (g\<lparr>server_output_thread := Some (Reading p)\<rparr>, h')))) \<le> 100" for p h'
    using Suc.IH [of "g\<lparr>server_output_thread := Some (Reading p)\<rparr>" h'] Suc.prems by simp
  show ?case
    using Suc.prems
    by (simp add: a b reader_cleanup_def split: option.splits sum.splits reader_state.splits)
qed

text \<open>
  C2. The console log of the supervisor never holds more than \<^verbatim>\<open>max_console_lines\<close>
  lines (1000 after \<^verbatim>\<open>__init__\<close>), the panel's buffer never more than 100: the bound
  holds after every line the reader has handled, for any number of turns of the reader
  thread. After the lines \<open>ls\<close> have been read, the log is the last
  \<^verbatim>\<open>max_console_lines\<close> of the lines appended so far (the old log, then the stripped
  non-empty lines of \<open>ls\<close>), in the order they were appended; the panel's buffer is
  the last 100 of them (there a line is appended when it is not empty after stripping).
\<close>

theorem console_ring_bounded:
  "(int (length (console_log s)) \<le> max_console_lines s \<longrightarrow>
      int (length (console_log (fst (capture_output env k (s, h))))) \<le> max_console_lines s \<and>
      int (length (console_log (foldl capture_line s ls))) \<le> max_console_lines s \<and>
      console_log (foldl capture_line s ls) =
        drop (length (console_log s @ map strip (filter (\<lambda>l. l \<noteq> []) ls)) - nat (max_console_lines s))
             (console_log s @ map strip (filter (\<lambda>l. l \<noteq> []) ls))) \<and>
   console_log fresh_server = [] \<and> max_console_lines fresh_server = 1000 \<and>
   console_log (foldl capture_line fresh_server ls) =
     drop (length (map strip (filter (\<lambda>l. l \<noteq> []) ls)) - 1000) (map strip (filter (\<lambda>l. l \<noteq> []) ls)) \<and>
   (length (server_output_buffer g) \<le> 100 \<longrightarrow>
      length (server_output_buffer (fst (read_server_output env k (g, h)))) \<le> 100 \<and>
      length (foldl buffer_line (server_output_buffer g) ls) \<le> 100 \<and>
      foldl buffer_line (server_output_buffer g) ls =
        drop (length (server_output_buffer g @ filter (\<lambda>l. l \<noteq> []) (map strip ls)) - 100)
             (server_output_buffer g @ filter (\<lambda>l. l \<noteq> []) (map strip ls))) \<and>
   foldl buffer_line [] ls =
     drop (length (filter (\<lambda>l. l \<noteq> []) (map strip ls)) - 100) (filter (\<lambda>l. l \<noteq> []) (map strip ls))"
proof -
  have f: "console_log fresh_server = []" "max_console_lines fresh_server = 1000"
    by (simp_all add: fresh_server_def MinecraftServer_init_def Let_def)
  have a: "int (length (console_log s)) \<le> max_console_lines s \<Longrightarrow>
      int (length (console_log (foldl capture_line s ls))) \<le> max_console_lines s" for s :: server
  proof (induction ls arbitrary: s)
    case Nil
    then show ?case by simp
  next
    case (Cons l ls)
    from Cons.IH [of "capture_line s l"] capture_line_bound [OF Cons.prems, of l]
    show ?case by (simp add: capture_line_max)
  qed
  have b: "length buf \<le> 100 \<Longrightarrow> length (foldl buffer_line buf ls) \<le> 100" for buf
    by (induction ls arbitrary: buf) (simp_all add: buffer_line_bound)
  have c: "console_log (foldl capture_line fresh_server ls) =
     drop (length (map strip (filter (\<lambda>l. l \<noteq> []) ls)) - 1000) (map strip (filter (\<lambda>l. l \<noteq> []) ls))"
    using foldl_capture_line_window [of fresh_server ls] by (simp add: f)
  have d: "foldl buffer_line [] ls =
     drop (length (filter (\<lambda>l. l \<noteq> []) (map strip ls)) - 100) (filter (\<lambda>l. l \<noteq> []) (map strip ls))"
    using foldl_buffer_line_window [of "[]" ls] by simp
  show ?thesis
    using a b c d f capture_output_bound read_server_output_bound
      foldl_capture_line_window foldl_buffer_line_window
    by blast
qed

theorem console_ring_bounded_witness:
  "int (length (console_log fresh_server)) \<le> max_console_lines fresh_server \<and>
   console_log (foldl capture_line fresh_server [''  hello '', [], ''x'']) = [''hello'', ''x''] \<and>
   length (server_output_buffer panel_init) \<le> 100 \<and>
   foldl buffer_line (server_output_buffer panel_init) [''  hello '', '' '', ''x''] = [''hello'', ''x'']"
proof -
  have f: "console_log fresh_server = []" "max_console_lines fresh_server = 1000"
    by (simp_all add: fresh_server_def MinecraftServer_init_def Let_def)
  have g: "server_output_buffer panel_init = []"
    by (simp add: panel_init_def)
  show ?thesis
    using console_ring_bounded [of fresh_server quiet_env 0 "[]" "[''  hello '', [], ''x'']" panel_init]
      console_ring_bounded [of fresh_server quiet_env 0 "[]" "[''  hello '', '' '', ''x'']" panel_init]
    by (simp add: f g strip_def is_space_def)
qed

section \<open>Waiting for readiness\<close>

lemma capture_output_filter:
  assumes "\<And>p. \<not> P (ReaderPoll p)" "\<And>p. \<not> P (Readline p)" "\<And>l m. \<not> P (Log l m)"
  shows "filter P (snd (capture_output env k (s, h))) = filter P h"
proof (induction k arbitrary: s h)
  case 0
  then show ?case by simp
next
  case (Suc k)
  show ?case
    by (simp add: assms Suc.IH split: option.splits sum.splits)
qed

lemma capture_line_not_ready:
  "\<not> list_ex ready_line (console_log s) \<Longrightarrow> \<not> ready_line (strip l) \<Longrightarrow>
   \<not> list_ex ready_line (console_log (capture_line s l))"
  by (cases "console_log s") (auto simp: capture_line_def Let_def list_ex_iff dest: list.set_sel(2))

lemma capture_output_process: "process (fst (capture_output env k (s, h))) = process s"
proof (induction k arbitrary: s h)
  case 0
  then show ?case by simp
next
  case (Suc k)
  show ?case
    by (simp add: Suc.IH capture_line_fields split: option.splits sum.splits)
qed

lemma capture_output_starting:
  assumes alive: "\<And>h'. os_poll env h' = Inr None"
    and lines: "\<And>h'. \<exists>line. os_readline env h' = Inr line \<and> \<not> ready_line (strip line)"
  shows "starting s \<Longrightarrow> starting (fst (capture_output env k (s, h)))"
proof (induction k arbitrary: s h)
  case 0
  then show ?case by simp
next
  case (Suc k)
  from Suc.prems obtain p where p: "process s = Some p" "is_running s"
    by (auto simp: starting_def)
  from lines obtain line where l: "os_readline env (h @ [ReaderPoll p, Readline p]) = Inr line"
      "\<not> ready_line (strip line)" by blast
  have "starting (capture_line s line)"
    using Suc.prems l(2) capture_line_not_ready [of s line]
    by (simp add: starting_def capture_line_fields)
  from Suc.IH [OF this] show ?case
    using p l Suc.prems by (simp add: alive)
qed

lemma wait_ready_timeout:
  assumes alive: "\<And>h'. os_poll env h' = Inr None"
    and lines: "\<And>h'. \<exists>line. os_readline env h' = Inr line \<and> \<not> ready_line (strip line)"
  shows "starting s \<Longrightarrow>
    (\<exists>s' h'. wait_ready env n (s, h) = (Inr True, s', h' @ [Log WARNING SlowStart]) \<and> starting s' \<and>
       process s' = process s \<and>
       filter is_sleep h' = filter is_sleep h @ replicate n (Sleep 1))"
proof (induction n arbitrary: s h)
  case 0
  then show ?case by simp
next
  case (Suc n)
  obtain s1 h1 where sl: "sleep env 1 (s, h) = (s1, h1)" by (cases "sleep env 1 (s, h)")
  have st: "starting s1"
    using capture_output_starting [OF alive lines Suc.prems, of "reader_turns env (h @ [Sleep 1])" "h @ [Sleep 1]"] sl
    by (simp add: sleep_def)
  have f: "filter is_sleep h1 = filter is_sleep h @ [Sleep 1]"
    using capture_output_filter [of is_sleep env "reader_turns env (h @ [Sleep 1])" s "h @ [Sleep 1]"] sl
    by (simp add: sleep_def)
  have pr: "process s1 = process s"
    using capture_output_process [of env "reader_turns env (h @ [Sleep 1])" s "h @ [Sleep 1]"] sl
    by (simp add: sleep_def)
  from Suc.IH [OF st, of h1] obtain s' h' where
    w: "wait_ready env n (s1, h1) = (Inr True, s', h' @ [Log WARNING SlowStart])" "starting s'"
       "process s' = process s1"
       "filter is_sleep h' = filter is_sleep h1 @ replicate n (Sleep 1)" by blast
  have "wait_ready env (Suc n) (s, h) = wait_ready env n (s1, h1)"
    using Suc.prems sl by (simp add: starting_def)
  with w f pr show ?case by (simp add: replicate_app_Cons_same)
qed

text \<open>
  C6, as the claim states it, fails. In the first run \<^verbatim>\<open>Popen\<close> succeeds, every
  poll finds the child alive and no line reaches the console log, but the first read of
  the reader thread raises: the thread ends and clears \<^verbatim>\<open>is_running\<close>, and
  \<^verbatim>\<open>start()\<close> returns \<^verbatim>\<open>False\<close> at its second check, after one second. In the
  second run \<^verbatim>\<open>Popen\<close> succeeds and the reader thread cannot be started:
  \<^verbatim>\<open>start()\<close> returns \<^verbatim>\<open>False\<close>. In both the child is left alive.
\<close>

theorem start_reader_failure_counterexample:
  "start deaf_env (fresh_server, []) =
     (Inr False,
      fresh_server\<lparr>process := Some 1, is_running := False, output_thread := Some Finished\<rparr>,
      [Log INFO (StartingWithCommand (launch_command fresh_server)),
       Popen (launch_command fresh_server), ThreadStart, Log INFO StartedWaiting, Sleep 1,
       ReaderPoll 1, Readline 1, Log ERROR (CaptureError UnicodeDecodeError),
       Log ERROR StoppedDuringStart]) \<and>
   os_poll deaf_env
     [Log INFO (StartingWithCommand (launch_command fresh_server)),
      Popen (launch_command fresh_server), ThreadStart, Log INFO StartedWaiting, Sleep 1,
      ReaderPoll 1] = Inr None \<and>
   start no_thread_env (fresh_server, []) =
     (Inr False,
      fresh_server\<lparr>process := Some 1, is_running := False, output_thread := Some Created\<rparr>,
      [Log INFO (StartingWithCommand (launch_command fresh_server)),
       Popen (launch_command fresh_server), ThreadStart, Log ERROR (StartError RuntimeError)])"
proof -
  have f: "\<not> is_running fresh_server" "console_log fresh_server = []"
    by (simp_all add: fresh_server_def MinecraftServer_init_def Let_def)
  have d: "os_popen deaf_env h' = None" "os_thread_start deaf_env h' = None"
    "os_poll deaf_env h' = Inr None" "os_readline deaf_env h' = Inl UnicodeDecodeError"
    "reader_turns deaf_env h' = 1" for h'
    by (simp_all add: deaf_env_def quiet_env_def)
  have n: "os_popen no_thread_env h' = None" "os_thread_start no_thread_env h' = Some RuntimeError" for h'
    by (simp_all add: no_thread_env_def quiet_env_def)
  have a: "start deaf_env (fresh_server, []) =
     (Inr False,
      fresh_server\<lparr>process := Some 1, is_running := False, output_thread := Some Finished\<rparr>,
      [Log INFO (StartingWithCommand (launch_command fresh_server)),
       Popen (launch_command fresh_server), ThreadStart, Log INFO StartedWaiting, Sleep 1,
       ReaderPoll 1, Readline 1, Log ERROR (CaptureError UnicodeDecodeError),
       Log ERROR StoppedDuringStart])"
    by (simp add: start_def start_body_def Let_def f d eval_nat_numeral sleep_def)
  have b: "start no_thread_env (fresh_server, []) =
     (Inr False,
      fresh_server\<lparr>process := Some 1, is_running := False, output_thread := Some Created\<rparr>,
      [Log INFO (StartingWithCommand (launch_command fresh_server)),
       Popen (launch_command fresh_server), ThreadStart, Log ERROR (StartError RuntimeError)])"
    by (simp add: start_def start_body_def Let_def f n)
  show ?thesis using a b d(3) by simp
qed

text \<open>
  C6, amended. \<^verbatim>\<open>start()\<close> finds the server not running, \<^verbatim>\<open>Popen\<close> and the
  start of the reader thread succeed, the child stays alive (every poll finds it so), the
  reader thread reads without an exception, and no line with both \<^verbatim>\<open>Done\<close> and
  \<^verbatim>\<open>For help, type\<close> is in the console log or is ever read. Then \<^verbatim>\<open>start()\<close>
  waits its 60 rounds of one second, logs the warning that the start takes long, and
  returns \<^verbatim>\<open>True\<close>, the supervisor marked running with the new process.
\<close>

theorem start_readiness_timeout_is_success:
  assumes "\<not> is_running s"
    and "\<not> list_ex ready_line (console_log s)"
    and "os_popen env (h @ [Log INFO (StartingWithCommand (launch_command s)),
                            Popen (launch_command s)]) = None"
    and "os_thread_start env (h @ [Log INFO (StartingWithCommand (launch_command s)),
                                   Popen (launch_command s), ThreadStart]) = None"
    and "\<forall>h'. os_poll env h' = Inr None"
    and "\<forall>h'. \<exists>line. os_readline env h' = Inr line \<and> \<not> ready_line (strip line)"
  shows "\<exists>s' h'. start env (s, h) = (Inr True, s', h' @ [Log WARNING SlowStart]) \<and>
           is_running s' \<and> process s' = Some (Suc (length h)) \<and>
           \<not> list_ex ready_line (console_log s') \<and>
           filter is_sleep h' = filter is_sleep h @ replicate 60 (Sleep 1)"
proof -
  let ?c = "launch_command s"
  let ?s0 = "s\<lparr>process := Some (Suc (length h)), is_running := True, output_thread := Some Active\<rparr>"
  let ?h0 = "h @ [Log INFO (StartingWithCommand ?c), Popen ?c, ThreadStart, Log INFO StartedWaiting]"
  have b: "start_body env (s, h) = wait_ready env 60 (?s0, ?h0)"
    using assms(3,4) by (simp add: start_body_def Let_def)
  have "starting ?s0" using assms(2) by (simp add: starting_def)
  from wait_ready_timeout [where env = env and n = 60 and h = ?h0, OF _ _ this] assms(5,6)
  obtain s' h' where w: "wait_ready env 60 (?s0, ?h0) = (Inr True, s', h' @ [Log WARNING SlowStart])"
      "starting s'" "process s' = process ?s0"
      "filter is_sleep h' = filter is_sleep ?h0 @ replicate 60 (Sleep 1)"
    by blast
  have "start env (s, h) = (Inr True, s', h' @ [Log WARNING SlowStart])"
    using assms(1) b w(1) by (simp add: start_def)
  moreover have "filter is_sleep h' = filter is_sleep h @ replicate 60 (Sleep 1)"
    using w(4) by simp
  ultimately show ?thesis using w(2,3) by (auto simp: starting_def)
qed

theorem start_readiness_timeout_is_success_witness:
  "\<not> is_running fresh_server \<and> \<not> list_ex ready_line (console_log fresh_server) \<and>
   (\<forall>h'. os_poll slow_env h' = Inr None) \<and>
   (\<forall>h'. \<exists>line. os_readline slow_env h' = Inr line \<and> \<not> ready_line (strip line)) \<and>
   (\<exists>s' h'. start slow_env (fresh_server, []) = (Inr True, s', h' @ [Log WARNING SlowStart]) \<and>
        is_running s' \<and> process s' = Some 1 \<and> filter is_sleep h' = replicate 60 (Sleep 1))"
proof -
  have f: "\<not> is_running fresh_server" "\<not> list_ex ready_line (console_log fresh_server)"
    by (simp_all add: fresh_server_def MinecraftServer_init_def Let_def)
  have p: "os_popen slow_env h' = None" "os_thread_start slow_env h' = None" for h'
    by (simp_all add: slow_env_def quiet_env_def)
  have a: "\<forall>h'. os_poll slow_env h' = Inr None"
    by (simp add: slow_env_def quiet_env_def)
  have l: "\<forall>h'. \<exists>line. os_readline slow_env h' = Inr line \<and> \<not> ready_line (strip line)"
    by (simp add: slow_env_def quiet_env_def ready_line_def strip_def is_space_def)
  show ?thesis
    using start_readiness_timeout_is_success [OF f p a l, of "[]"] f a l
    by simp blast
qed

section \<open>The process handle and the running flag\<close>

lemma quieter_refl: "quieter s s" by (simp add: quieter_def)
lemma quieter_trans: "quieter s s1 \<Longrightarrow> quieter s1 s2 \<Longrightarrow> quieter s s2" by (simp add: quieter_def)

lemma capture_output_quieter: "quieter s (fst (capture_output env k (s, h)))"
proof (induction k arbitrary: s h)
  case 0
  then show ?case by (simp add: quieter_def)
next
  case (Suc k)
  have "quieter s (fst (capture_output env k (capture_line s l, h')))" for l h'
    using Suc.IH [of "capture_line s l" h'] by (simp add: quieter_def capture_line_fields)
  then show ?case
    by (simp add: quieter_def split: option.splits sum.splits)
qed

lemma sleep_quieter: "quieter s (fst (sleep env n (s, h)))"
  by (simp add: sleep_def capture_output_quieter)

lemma send_command_state: "fst (snd (send_command env c (s, h))) = s"
  by (simp add: send_command_def split: option.splits)

lemma stop_save_quieter: "quieter s (fst (stop_save env (s, h)))"
proof -
  obtain r s1 h1 where sc: "send_command env ''save-all'' (s, h @ [Log INFO SavingWorld]) = (r, s1, h1)"
    by (cases "send_command env ''save-all'' (s, h @ [Log INFO SavingWorld])")
  with send_command_state [of env "''save-all''" s "h @ [Log INFO SavingWorld]"] have "s1 = s" by simp
  with sc show ?thesis using sleep_quieter [of s env 2 h1] by (simp add: stop_save_def)
qed

lemma stop_poll_quieter: "quieter s (fst (snd (stop_poll env n (s, h))))"
proof (induction n arbitrary: s h)
  case 0
  then show ?case by (simp add: quieter_def)
next
  case (Suc n)
  have "quieter s (fst (snd (stop_poll env n (sleep env 1 (s, h')))))" for h'
    using Suc.IH [of "fst (sleep env 1 (s, h'))" "snd (sleep env 1 (s, h'))"] sleep_quieter [of s env 1 h']
    by (auto intro: quieter_trans)
  then show ?case
    by (simp add: quieter_def split: option.splits sum.splits)
qed

lemma terminate_kill_quieter: "quieter s (fst (snd (terminate_kill env p (s, h))))"
  using sleep_quieter [of s env 2 "h @ [Terminate p]"]
  by (auto simp: terminate_kill_def quieter_def split: option.splits sum.splits prod.splits)

lemma stop_force_quieter: "quieter s (fst (snd (stop_force env (s, h))))"
proof (cases "process s")
  case None
  then show ?thesis by (simp add: stop_force_def quieter_def)
next
  case (Some p)
  obtain e s' h' where tk: "terminate_kill env p (s, h @ [Log WARNING ForcingTermination]) = (e, s', h')"
    by (cases "terminate_kill env p (s, h @ [Log WARNING ForcingTermination])")
  with terminate_kill_quieter [of s env p "h @ [Log WARNING ForcingTermination]"]
  have "quieter s s'" by simp
  with Some tk show ?thesis
    by (cases e) (simp_all add: stop_force_def quieter_def)
qed

lemma stop_body_quieter: "quieter s (fst (snd (stop_body env t (s, h))))"
proof -
  obtain s1 h1 where a: "stop_save env (s, h) = (s1, h1)" by (cases "stop_save env (s, h)")
  obtain r s2 h2 where b: "send_command env ''stop'' (s1, h1 @ [Log INFO SendingStop]) = (r, s2, h2)"
    by (cases "send_command env ''stop'' (s1, h1 @ [Log INFO SendingStop])")
  obtain r3 s3 h3 where c: "stop_poll env (nat t) (s2, h2) = (r3, s3, h3)"
    by (cases "stop_poll env (nat t) (s2, h2)")
  have q1: "quieter s s1" using stop_save_quieter [of s env h] a by simp
  have "s2 = s1" using send_command_state [of env "''stop''" s1 "h1 @ [Log INFO SendingStop]"] b by simp
  moreover have "quieter s2 s3" using stop_poll_quieter [of s2 env "nat t" h2] c by simp
  ultimately have q3: "quieter s s3" using q1 by (auto intro: quieter_trans)
  have q4: "quieter s (fst (snd (stop_force env (s3, h3))))"
    using q3 stop_force_quieter [of s3 env h3] by (auto intro: quieter_trans)
  show ?thesis
    using a b c q3 q4 by (simp add: stop_body_def split: sum.splits bool.splits)
qed

lemma stop_quieter: "quieter s (fst (snd (stop env t (s, h))))"
  using stop_body_quieter [of s env t h]
  by (auto simp: stop_def quieter_def split: prod.splits sum.splits)

lemma is_server_running_quieter: "quieter s (fst (snd (is_server_running env (s, h))))"
  by (auto simp: is_server_running_def quieter_def split: option.splits sum.splits)

lemma backup_body_state:
  "fst (snd (backup_body env d (s, h))) =
     fst (if is_running s
          then sleep env 5 (snd (send_command env ''save-all'' (s, h @ [Now, Log INFO SavingBeforeBackup])))
          else (s, h @ [Now]))"
  by (simp add: backup_body_def Let_def split: prod.splits option.splits)

lemma backup_body_quieter: "quieter s (fst (snd (backup_body env d (s, h))))"
proof (cases "is_running s")
  case True
  obtain r s1 h1 where sc:
    "send_command env ''save-all'' (s, h @ [Now, Log INFO SavingBeforeBackup]) = (r, s1, h1)"
    by (cases "send_command env ''save-all'' (s, h @ [Now, Log INFO SavingBeforeBackup])")
  with send_command_state [of env "''save-all''" s "h @ [Now, Log INFO SavingBeforeBackup]"]
  have "s1 = s" by simp
  with sc True sleep_quieter [of s env 5 h1] show ?thesis
    by (simp add: backup_body_state)
next
  case False
  then show ?thesis by (simp add: backup_body_state quieter_refl)
qed

lemma backup_world_quieter: "quieter s (fst (snd (backup_world env d (s, h))))"
proof -
  obtain r s' h' where b:
    "backup_body env d (s, h @ [PathExists ''world'', Makedirs d]) = (r, s', h')"
    by (cases "backup_body env d (s, h @ [PathExists ''world'', Makedirs d])")
  with backup_body_quieter [of s env d "h @ [PathExists ''world'', Makedirs d]"]
  have "quieter s s'" by simp
  with b show ?thesis
    by (cases r) (simp_all add: backup_world_def quieter_refl split: option.splits)
qed

lemma quieter_inv: "handle_inv s \<Longrightarrow> quieter s s' \<Longrightarrow> handle_inv s'"
  by (auto simp: handle_inv_def quieter_def)

lemma wait_ready_process: "process (fst (snd (wait_ready env n (s, h)))) = process s"
proof (induction n arbitrary: s h)
  case 0
  then show ?case by simp
next
  case (Suc n)
  show ?case
    using Suc.IH [of "fst (sleep env 1 (s, h))" "snd (sleep env 1 (s, h))"] sleep_quieter [of s env 1 h]
    by (simp add: quieter_def)
qed

lemma start_body_inv:
  "fst (start_body env (s, h)) = Inr b \<Longrightarrow> process (fst (snd (start_body env (s, h)))) \<noteq> None"
  using wait_ready_process [of env 60]
  by (auto simp: start_body_def Let_def split: option.splits)

lemma start_inv: "handle_inv s \<Longrightarrow> handle_inv (fst (snd (start env (s, h))))"
proof (cases "is_running s")
  case True
  assume "handle_inv s"
  with True show ?thesis by (simp add: start_def)
next
  case False
  obtain r s' h' where b: "start_body env (s, h) = (r, s', h')"
    by (cases "start_body env (s, h)")
  show ?thesis
  proof (cases r)
    case (Inl e)
    with False b show ?thesis by (simp add: start_def handle_inv_def)
  next
    case (Inr v)
    with b start_body_inv [of env s h v] have "process s' \<noteq> None" by simp
    with False b Inr show ?thesis by (simp add: start_def handle_inv_def)
  qed
qed

lemma restart_inv: "handle_inv s \<Longrightarrow> handle_inv (fst (snd (restart env t (s, h))))"
proof -
  assume i: "handle_inv s"
  obtain r s1 h1 where st: "stop env t (s, h @ [Log INFO Restarting]) = (r, s1, h1)"
    by (cases "stop env t (s, h @ [Log INFO Restarting])")
  with stop_quieter [of s env t "h @ [Log INFO Restarting]"] i have i1: "handle_inv s1"
    by (auto intro: quieter_inv)
  obtain s2 h2 where sl: "sleep env 5 (s1, h1) = (s2, h2)" by (cases "sleep env 5 (s1, h1)")
  with sleep_quieter [of s1 env 5 h1] i1 have "handle_inv s2" by (auto intro: quieter_inv)
  then have "handle_inv (fst (snd (start env (s2, h2))))" by (rule start_inv)
  with st sl i1 show ?thesis
    by (cases r) (simp_all add: restart_def split: bool.splits)
qed

lemma do_call_inv: "handle_inv (fst \<sigma>) \<Longrightarrow> handle_inv (fst (do_call env \<sigma> c))"
proof (cases \<sigma>)
  case (Pair s h)
  assume "handle_inv (fst \<sigma>)"
  with Pair have i: "handle_inv s" by simp
  show ?thesis
  proof (cases c)
    case Start
    with Pair i show ?thesis by (simp add: start_inv)
  next
    case (Stop t)
    with Pair i stop_quieter [of s env t h] show ?thesis by (auto intro: quieter_inv)
  next
    case (SendCommand x)
    with Pair i send_command_state [of env x s h] show ?thesis by simp
  next
    case IsServerRunning
    with Pair i is_server_running_quieter [of s env h] show ?thesis by (auto intro: quieter_inv)
  next
    case (Restart t)
    with Pair i show ?thesis by (simp add: restart_inv)
  next
    case (BackupWorld d)
    with Pair i backup_world_quieter [of s env d h] show ?thesis by (auto intro: quieter_inv)
  next
    case (ReaderRuns k)
    with Pair i capture_output_quieter [of s env k h] show ?thesis by (auto intro: quieter_inv)
  qed
qed

lemma run_calls_inv: "handle_inv (fst \<sigma>) \<Longrightarrow> handle_inv (fst (run_calls env calls \<sigma>))"
  unfolding run_calls_def
  by (induction calls arbitrary: \<sigma>) (simp_all add: do_call_inv)

lemma start_obedient:
  "start obedient_env (fresh_server, []) =
     (Inr True,
      fresh_server\<lparr>process := Some 1, is_running := True, output_thread := Some Active,
                    console_log := [''Done (3.2s)! For help, type help'']\<rparr>,
      [Log INFO (StartingWithCommand (launch_command fresh_server)), Popen (launch_command fresh_server),
       ThreadStart, Log INFO StartedWaiting, Sleep 1, ReaderPoll 1, Readline 1,
       Log DEBUG (ServerLine ''Done (3.2s)! For help, type help''), Log INFO ServerReady])"
  by (simp add: start_def start_body_def Let_def fresh_server_def MinecraftServer_init_def
        obedient_env_def quiet_env_def eval_nat_numeral sleep_def ready_line_def capture_line_def
        strip_def is_space_def)

lemma obedient_fields:
  "os_write obedient_env h = None" "os_flush obedient_env h = None"
  "os_poll obedient_env h = (if Write 1 (''stop'' @ [CHR 0x0A]) \<in> set h then Inr (Some 0) else Inr None)"
  "os_readline obedient_env h = Inr (''Done (3.2s)! For help, type help'' @ [CHR 0x0A])"
  "reader_turns obedient_env h = 1"
  by (simp_all add: obedient_env_def quiet_env_def)

lemma start_body_process_kept:
  "process s \<noteq> None \<Longrightarrow> process (fst (snd (start_body env (s, h)))) \<noteq> None"
  by (simp add: start_body_def Let_def wait_ready_process split: option.splits)

lemma start_process_kept:
  "process s \<noteq> None \<Longrightarrow> process (fst (snd (start env (s, h)))) \<noteq> None"
proof -
  assume i: "process s \<noteq> None"
  obtain r s' h' where b: "start_body env (s, h) = (r, s', h')"
    by (cases "start_body env (s, h)")
  with start_body_process_kept [OF i, of env h] have "process s' \<noteq> None" by simp
  with b i show ?thesis
    by (cases r) (simp_all add: start_def)
qed

lemma do_call_process_kept:
  "process (fst \<sigma>) \<noteq> None \<Longrightarrow> process (fst (do_call env \<sigma> c)) \<noteq> None"
proof (cases \<sigma>)
  case (Pair s h)
  assume "process (fst \<sigma>) \<noteq> None"
  with Pair have i: "process s \<noteq> None" by simp
  show ?thesis
  proof (cases c)
    case Start
    with Pair i show ?thesis by (simp add: start_process_kept)
  next
    case (Stop t)
    with Pair i stop_quieter [of s env t h] show ?thesis by (simp add: quieter_def)
  next
    case (SendCommand x)
    with Pair i send_command_state [of env x s h] show ?thesis by simp
  next
    case IsServerRunning
    with Pair i is_server_running_quieter [of s env h] show ?thesis by (simp add: quieter_def)
  next
    case (Restart t)
    obtain r s1 h1 where st: "stop env t (s, h @ [Log INFO Restarting]) = (r, s1, h1)"
      by (cases "stop env t (s, h @ [Log INFO Restarting])")
    with stop_quieter [of s env t "h @ [Log INFO Restarting]"] i have i1: "process s1 \<noteq> None"
      by (simp add: quieter_def)
    obtain s2 h2 where sl: "sleep env 5 (s1, h1) = (s2, h2)" by (cases "sleep env 5 (s1, h1)")
    with sleep_quieter [of s1 env 5 h1] i1 have "process s2 \<noteq> None" by (simp add: quieter_def)
    then have "process (fst (snd (start env (s2, h2)))) \<noteq> None" by (rule start_process_kept)
    with st sl i1 Pair Restart show ?thesis
      by (cases r) (simp_all add: restart_def split: bool.splits)
  next
    case (BackupWorld d)
    with Pair i backup_world_quieter [of s env d h] show ?thesis by (simp add: quieter_def)
  next
    case (ReaderRuns k)
    with Pair i capture_output_quieter [of s env k h] show ?thesis by (simp add: quieter_def)
  qed
qed

lemma run_calls_process_kept:
  "process (fst \<sigma>) \<noteq> None \<Longrightarrow> process (fst (run_calls env calls \<sigma>)) \<noteq> None"
  unfolding run_calls_def
proof (induction calls arbitrary: \<sigma>)
  case Nil
  then show ?case by simp
next
  case (Cons c calls)
  from Cons.prems have "process (fst (do_call env \<sigma> c)) \<noteq> None"
    by (rule do_call_process_kept)
  from Cons.IH [OF this] show ?case by simp
qed

lemma capture_output_spawn: "filter is_spawn (snd (capture_output env k (s, h))) = filter is_spawn h"
  by (rule capture_output_filter) simp_all

lemma sleep_spawn: "filter is_spawn (snd (sleep env n (s, h))) = filter is_spawn h"
  by (simp add: sleep_def capture_output_spawn)

lemma send_command_spawn:
  "filter is_spawn (snd (snd (send_command env c (s, h)))) = filter is_spawn h"
  by (simp add: send_command_def split: option.splits)

lemma stop_save_spawn: "filter is_spawn (snd (stop_save env (s, h))) = filter is_spawn h"
proof -
  obtain r s1 h1 where sc: "send_command env ''save-all'' (s, h @ [Log INFO SavingWorld]) = (r, s1, h1)"
    by (cases "send_command env ''save-all'' (s, h @ [Log INFO SavingWorld])")
  with send_command_spawn [of env "''save-all''" s "h @ [Log INFO SavingWorld]"]
  have "filter is_spawn h1 = filter is_spawn h" by simp
  with sc show ?thesis by (simp add: stop_save_def sleep_spawn)
qed

lemma stop_poll_spawn:
  "filter is_spawn (snd (snd (stop_poll env n (s, h)))) = filter is_spawn h"
proof (induction n arbitrary: s h)
  case 0
  then show ?case by simp
next
  case (Suc n)
  have "filter is_spawn (snd (snd (stop_poll env n (sleep env 1 (s, h'))))) = filter is_spawn h'" for h'
    using Suc.IH [of "fst (sleep env 1 (s, h'))" "snd (sleep env 1 (s, h'))"] sleep_spawn [of env 1 s h']
    by simp
  then show ?case by (simp split: option.splits sum.splits)
qed

lemma terminate_kill_spawn:
  "filter is_spawn (snd (snd (terminate_kill env p (s, h)))) = filter is_spawn h"
proof -
  obtain s1 h1 where sl: "sleep env 2 (s, h @ [Terminate p]) = (s1, h1)"
    by (cases "sleep env 2 (s, h @ [Terminate p])")
  with sleep_spawn [of env 2 s "h @ [Terminate p]"] have "filter is_spawn h1 = filter is_spawn h"
    by simp
  with sl show ?thesis
    by (simp add: terminate_kill_def split: option.splits sum.splits)
qed

lemma stop_force_spawn:
  "filter is_spawn (snd (snd (stop_force env (s, h)))) = filter is_spawn h"
proof (cases "process s")
  case None
  then show ?thesis by (simp add: stop_force_def)
next
  case (Some p)
  obtain e s' h' where tk: "terminate_kill env p (s, h @ [Log WARNING ForcingTermination]) = (e, s', h')"
    by (cases "terminate_kill env p (s, h @ [Log WARNING ForcingTermination])")
  with terminate_kill_spawn [of env p s "h @ [Log WARNING ForcingTermination]"]
  have "filter is_spawn h' = filter is_spawn h" by simp
  with Some tk show ?thesis by (cases e) (simp_all add: stop_force_def)
qed

lemma stop_body_spawn:
  "filter is_spawn (snd (snd (stop_body env t (s, h)))) = filter is_spawn h"
proof -
  obtain s1 h1 where a: "stop_save env (s, h) = (s1, h1)" by (cases "stop_save env (s, h)")
  obtain r s2 h2 where b: "send_command env ''stop'' (s1, h1 @ [Log INFO SendingStop]) = (r, s2, h2)"
    by (cases "send_command env ''stop'' (s1, h1 @ [Log INFO SendingStop])")
  obtain r3 s3 h3 where c: "stop_poll env (nat t) (s2, h2) = (r3, s3, h3)"
    by (cases "stop_poll env (nat t) (s2, h2)")
  have 1: "filter is_spawn h1 = filter is_spawn h" using stop_save_spawn [of env s h] a by simp
  have 2: "filter is_spawn h2 = filter is_spawn h1"
    using send_command_spawn [of env "''stop''" s1 "h1 @ [Log INFO SendingStop]"] b by simp
  have 3: "filter is_spawn h3 = filter is_spawn h2" using stop_poll_spawn [of env "nat t" s2 h2] c by simp
  have 4: "filter is_spawn (snd (snd (stop_force env (s3, h3)))) = filter is_spawn h3"
    by (rule stop_force_spawn)
  show ?thesis
    using a b c 1 2 3 4 by (simp add: stop_body_def split: sum.splits bool.splits)
qed

lemma stop_spawn: "filter is_spawn (snd (snd (stop env t (s, h)))) = filter is_spawn h"
proof -
  obtain r s' h' where b: "stop_body env t (s, h) = (r, s', h')" by (cases "stop_body env t (s, h)")
  with stop_body_spawn [of env t s h] have "filter is_spawn h' = filter is_spawn h" by simp
  with b show ?thesis by (cases r) (simp_all add: stop_def)
qed

lemma is_server_running_spawn:
  "filter is_spawn (snd (snd (is_server_running env (s, h)))) = filter is_spawn h"
  by (simp add: is_server_running_def split: option.splits sum.splits)

lemma backup_body_spawn:
  "filter is_spawn (snd (snd (backup_body env d (s, h)))) = filter is_spawn h"
proof -
  have a: "filter is_spawn (snd (sleep env 5 (snd (send_command env ''save-all'' (s, h'))))) = filter is_spawn h'" for h'
    using send_command_spawn [of env "''save-all''" s h']
      send_command_state [of env "''save-all''" s h']
    by (cases "send_command env ''save-all'' (s, h')") (simp add: sleep_spawn)
  obtain s1 h1 where b: "(if is_running s
              then sleep env 5 (snd (send_command env ''save-all''
                                       (s, h @ [Now, Log INFO SavingBeforeBackup])))
              else (s, h @ [Now])) = (s1, h1)"
    by (cases "(if is_running s
              then sleep env 5 (snd (send_command env ''save-all''
                                       (s, h @ [Now, Log INFO SavingBeforeBackup])))
              else (s, h @ [Now]))")
  have "filter is_spawn h1 = filter is_spawn h"
    using b a [of "h @ [Now, Log INFO SavingBeforeBackup]"] by (auto split: if_splits)
  with b show ?thesis
    by (simp add: backup_body_def Let_def split: option.splits)
qed

lemma backup_world_spawn:
  "filter is_spawn (snd (snd (backup_world env d (s, h)))) = filter is_spawn h"
proof -
  obtain r s' h' where b:
    "backup_body env d (s, h @ [PathExists ''world'', Makedirs d]) = (r, s', h')"
    by (cases "backup_body env d (s, h @ [PathExists ''world'', Makedirs d])")
  with backup_body_spawn [of env d s "h @ [PathExists ''world'', Makedirs d]"]
  have "filter is_spawn h' = filter is_spawn h" by simp
  with b show ?thesis
    by (cases r) (simp_all add: backup_world_def split: option.splits)
qed

lemma wait_ready_spawn:
  "filter is_spawn (snd (snd (wait_ready env n (s, h)))) = filter is_spawn h"
proof (induction n arbitrary: s h)
  case 0
  then show ?case by simp
next
  case (Suc n)
  show ?case
    using Suc.IH [of "fst (sleep env 1 (s, h))" "snd (sleep env 1 (s, h))"] sleep_spawn [of env 1 s h]
    by simp
qed

lemma start_body_spawn:
  "filter is_spawn (snd (snd (start_body env (s, h)))) = filter is_spawn h @ [Popen (launch_command s)]"
  by (simp add: start_body_def Let_def wait_ready_spawn split: option.splits)

lemma start_spawn:
  "filter is_spawn (snd (snd (start env (s, h)))) =
     filter is_spawn h @ (if is_running s then [] else [Popen (launch_command s)])"
proof -
  obtain r s' h' where b: "start_body env (s, h) = (r, s', h')" by (cases "start_body env (s, h)")
  with start_body_spawn [of env s h]
  have "filter is_spawn h' = filter is_spawn h @ [Popen (launch_command s)]" by simp
  with b show ?thesis by (cases r) (simp_all add: start_def)
qed

lemma restart_spawn:
  "length (filter is_spawn (snd (snd (restart env t (s, h))))) \<le> Suc (length (filter is_spawn h))"
proof -
  obtain r s1 h1 where st: "stop env t (s, h @ [Log INFO Restarting]) = (r, s1, h1)"
    by (cases "stop env t (s, h @ [Log INFO Restarting])")
  with stop_spawn [of env t s "h @ [Log INFO Restarting]"]
  have 1: "filter is_spawn h1 = filter is_spawn h" by simp
  obtain s2 h2 where sl: "sleep env 5 (s1, h1) = (s2, h2)" by (cases "sleep env 5 (s1, h1)")
  with sleep_spawn [of env 5 s1 h1] 1 have 2: "filter is_spawn h2 = filter is_spawn h" by simp
  have "length (filter is_spawn (snd (snd (start env (s2, h2))))) \<le> Suc (length (filter is_spawn h))"
    using start_spawn [of env s2 h2] 2 by simp
  with st sl 1 show ?thesis
    by (cases r) (simp_all add: restart_def split: bool.splits)
qed

lemma start_deaf:
  "start deaf_env (fresh_server, []) =
     (Inr False,
      fresh_server\<lparr>process := Some 1, is_running := False, output_thread := Some Finished\<rparr>,
      [Log INFO (StartingWithCommand (launch_command fresh_server)),
       Popen (launch_command fresh_server), ThreadStart, Log INFO StartedWaiting, Sleep 1,
       ReaderPoll 1, Readline 1, Log ERROR (CaptureError UnicodeDecodeError),
       Log ERROR StoppedDuringStart])"
proof -
  have f: "\<not> is_running fresh_server" "console_log fresh_server = []"
    by (simp_all add: fresh_server_def MinecraftServer_init_def Let_def)
  have d: "os_popen deaf_env h' = None" "os_thread_start deaf_env h' = None"
    "os_poll deaf_env h' = Inr None" "os_readline deaf_env h' = Inl UnicodeDecodeError"
    "reader_turns deaf_env h' = 1" for h'
    by (simp_all add: deaf_env_def quiet_env_def)
  show ?thesis
    by (simp add: start_def start_body_def Let_def f d eval_nat_numeral sleep_def)
qed

text \<open>
  C8, as the claim states it, fails, in both parts. No operation sets
  \<^verbatim>\<open>self.process\<close> back to \<^verbatim>\<open>None\<close>: a new supervisor is started, the child prints
  the readiness line, and \<^verbatim>\<open>stop(30)\<close> ends it through the \<^verbatim>\<open>stop\<close> command;
  after the two calls the handle is still there and \<^verbatim>\<open>is_running\<close> is false. And a
  second child is spawned beside a live first one: \<^verbatim>\<open>start()\<close> is called twice on a
  new supervisor whose child stays alive while the first read of each reader thread
  raises; each call finds \<^verbatim>\<open>is_running\<close> false and calls \<^verbatim>\<open>Popen\<close>, no signal
  is sent, the handle of the first child is overwritten by the second, and a poll of either
  child after the run finds it alive.
\<close>

theorem process_handle_after_stop_counterexample:
  "process (fst (run_calls obedient_env [Start, Stop 30] (fresh_server, []))) = Some 1 \<and>
   \<not> is_running (fst (run_calls obedient_env [Start, Stop 30] (fresh_server, []))) \<and>
   filter is_spawn (snd (run_calls deaf_env [Start, Start] (fresh_server, []))) =
     [Popen (launch_command fresh_server), Popen (launch_command fresh_server)] \<and>
   filter is_signal (snd (run_calls deaf_env [Start, Start] (fresh_server, []))) = [] \<and>
   process (fst (run_calls deaf_env [Start, Start] (fresh_server, []))) = Some 10 \<and>
   os_poll deaf_env (snd (run_calls deaf_env [Start, Start] (fresh_server, [])) @ [Poll 1]) = Inr None \<and>
   os_poll deaf_env (snd (run_calls deaf_env [Start, Start] (fresh_server, [])) @ [Poll 10]) = Inr None"
proof -
  have m: "max_console_lines fresh_server = 1000"
    by (simp add: fresh_server_def MinecraftServer_init_def Let_def)
  have a: "process (fst (run_calls obedient_env [Start, Stop 30] (fresh_server, []))) = Some 1 \<and>
   \<not> is_running (fst (run_calls obedient_env [Start, Stop 30] (fresh_server, [])))"
    by (simp add: run_calls_def start_obedient stop_def stop_body_def stop_save_def send_command_def
        sleep_def capture_line_def strip_def is_space_def eval_nat_numeral obedient_fields m Let_def)
  have d: "os_popen deaf_env h' = None" "os_thread_start deaf_env h' = None"
    "os_poll deaf_env h' = Inr None" "os_readline deaf_env h' = Inl UnicodeDecodeError"
    "reader_turns deaf_env h' = 1" for h'
    by (simp_all add: deaf_env_def quiet_env_def)
  have f: "console_log fresh_server = []"
    by (simp add: fresh_server_def MinecraftServer_init_def Let_def)
  have l: "launch_command (s\<lparr>process := x, is_running := y, output_thread := z\<rparr>) = launch_command s"
    for s x y z
    by (simp add: launch_command_def)
  have b: "run_calls deaf_env [Start, Start] (fresh_server, []) =
     (fresh_server\<lparr>process := Some 10, is_running := False, output_thread := Some Finished\<rparr>,
      [Log INFO (StartingWithCommand (launch_command fresh_server)),
       Popen (launch_command fresh_server), ThreadStart, Log INFO StartedWaiting, Sleep 1,
       ReaderPoll 1, Readline 1, Log ERROR (CaptureError UnicodeDecodeError),
       Log ERROR StoppedDuringStart,
       Log INFO (StartingWithCommand (launch_command fresh_server)),
       Popen (launch_command fresh_server), ThreadStart, Log INFO StartedWaiting, Sleep 1,
       ReaderPoll 10, Readline 10, Log ERROR (CaptureError UnicodeDecodeError),
       Log ERROR StoppedDuringStart])"
    by (simp add: run_calls_def start_deaf)
       (simp add: start_def start_body_def Let_def d l f eval_nat_numeral sleep_def)
  show ?thesis using a by (simp add: b d)
qed

text \<open>
  C8, amended. After any run of public operations (\<^verbatim>\<open>start\<close>, \<^verbatim>\<open>stop\<close>,
  \<^verbatim>\<open>send_command\<close>, \<^verbatim>\<open>is_server_running\<close>, \<^verbatim>\<open>restart\<close>,
  \<^verbatim>\<open>backup_world\<close>), with the reader thread running in between, in any environment:
  when \<^verbatim>\<open>is_running\<close> is true, \<^verbatim>\<open>self.process\<close> is not \<^verbatim>\<open>None\<close>. This holds
  from \<^verbatim>\<open>__init__\<close> on. The converse does not hold: once a handle is stored,
  \<^verbatim>\<open>self.process\<close> is never \<^verbatim>\<open>None\<close> again. A process is spawned only by
  \<^verbatim>\<open>start()\<close>, also when \<^verbatim>\<open>restart()\<close> calls it: no other operation calls
  \<^verbatim>\<open>Popen\<close>, \<^verbatim>\<open>start()\<close> calls it once when it finds \<^verbatim>\<open>is_running\<close> false and
  not at all when it finds it true, and \<^verbatim>\<open>restart()\<close> calls it at most once. The
  guard is the flag, not the process: \<^verbatim>\<open>is_running\<close> can be false while the child
  lives, so this does not exclude a second child beside a live first one.
\<close>

theorem running_implies_process_handle:
  "((is_running s \<longrightarrow> process s \<noteq> None) \<longrightarrow>
      (is_running (fst (run_calls env calls (s, h))) \<longrightarrow>
         process (fst (run_calls env calls (s, h))) \<noteq> None)) \<and>
   (is_running (fst (run_calls env calls (MinecraftServer_init env jar minr maxr java port h))) \<longrightarrow>
      process (fst (run_calls env calls (MinecraftServer_init env jar minr maxr java port h))) \<noteq> None) \<and>
   (process s \<noteq> None \<longrightarrow> process (fst (run_calls env calls (s, h))) \<noteq> None) \<and>
   (c \<noteq> Start \<and> (\<forall>t. c \<noteq> Restart t) \<longrightarrow>
      filter is_spawn (snd (do_call env (s, h) c)) = filter is_spawn h) \<and>
   filter is_spawn (snd (do_call env (s, h) Start)) =
     filter is_spawn h @ (if is_running s then [] else [Popen (launch_command s)]) \<and>
   length (filter is_spawn (snd (do_call env (s, h) (Restart timeout)))) \<le> Suc (length (filter is_spawn h))"
proof -
  have a: "handle_inv s \<Longrightarrow> handle_inv (fst (run_calls env calls (s, h)))"
    using run_calls_inv [of "(s, h)" env calls] by simp
  have "handle_inv (fst (MinecraftServer_init env jar minr maxr java port h))"
    by (simp add: MinecraftServer_init_def Let_def handle_inv_def)
  then have b: "handle_inv (fst (run_calls env calls (MinecraftServer_init env jar minr maxr java port h)))"
    by (rule run_calls_inv)
  have c: "process s \<noteq> None \<Longrightarrow> process (fst (run_calls env calls (s, h))) \<noteq> None"
    using run_calls_process_kept [of "(s, h)" env calls] by simp
  have d: "c \<noteq> Start \<and> (\<forall>t. c \<noteq> Restart t) \<longrightarrow>
      filter is_spawn (snd (do_call env (s, h) c)) = filter is_spawn h"
    by (cases c)
       (simp_all add: stop_spawn send_command_spawn is_server_running_spawn backup_world_spawn
          capture_output_spawn)
  have e: "filter is_spawn (snd (do_call env (s, h) Start)) =
     filter is_spawn h @ (if is_running s then [] else [Popen (launch_command s)])"
    using start_spawn [of env s h] by simp
  have f: "length (filter is_spawn (snd (do_call env (s, h) (Restart timeout)))) \<le>
      Suc (length (filter is_spawn h))"
    using restart_spawn [of env timeout s h] by simp
  have abc: "((is_running s \<longrightarrow> process s \<noteq> None) \<longrightarrow>
      (is_running (fst (run_calls env calls (s, h))) \<longrightarrow>
         process (fst (run_calls env calls (s, h))) \<noteq> None)) \<and>
   (is_running (fst (run_calls env calls (MinecraftServer_init env jar minr maxr java port h))) \<longrightarrow>
      process (fst (run_calls env calls (MinecraftServer_init env jar minr maxr java port h))) \<noteq> None) \<and>
   (process s \<noteq> None \<longrightarrow> process (fst (run_calls env calls (s, h))) \<noteq> None)"
    using a b c unfolding handle_inv_def by blast
  show ?thesis using abc d e f by (intro conjI) blast+
qed

theorem running_implies_process_handle_witness:
  "is_running running_server \<and> process running_server \<noteq> None \<and>
   is_running (fst (run_calls obedient_env [SendCommand ''list'', IsServerRunning] (running_server, []))) \<and>
   process (fst (run_calls obedient_env [SendCommand ''list'', IsServerRunning] (running_server, []))) \<noteq> None \<and>
   is_running (fst (run_calls obedient_env [Start]
      (MinecraftServer_init obedient_env SERVER_JAR MIN_RAM MAX_RAM JAVA_PATH SERVER_PORT []))) \<and>
   process (fst (run_calls obedient_env [Start]
      (MinecraftServer_init obedient_env SERVER_JAR MIN_RAM MAX_RAM JAVA_PATH SERVER_PORT []))) \<noteq> None \<and>
   SendCommand ''list'' \<noteq> Start \<and> (\<forall>t. SendCommand ''list'' \<noteq> Restart t) \<and>
   filter is_spawn (snd (do_call obedient_env (running_server, []) (SendCommand ''list''))) = [] \<and>
   filter is_spawn (snd (do_call obedient_env (running_server, []) Start)) = []"
proof -
  have r: "is_running (fst (run_calls obedient_env [SendCommand ''list'', IsServerRunning] (running_server, [])))"
    by (simp add: run_calls_def send_command_def is_server_running_def running_server_def obedient_fields)
  have p: "is_running running_server" "process running_server \<noteq> None"
    by (simp_all add: running_server_def)
  have i: "is_running (fst (run_calls obedient_env [Start]
      (MinecraftServer_init obedient_env SERVER_JAR MIN_RAM MAX_RAM JAVA_PATH SERVER_PORT [])))"
    by (simp add: run_calls_def start_def start_body_def Let_def MinecraftServer_init_def
        obedient_env_def quiet_env_def eval_nat_numeral sleep_def ready_line_def capture_line_def
        strip_def is_space_def)
  have q: "SendCommand ''list'' \<noteq> Start \<and> (\<forall>t. SendCommand ''list'' \<noteq> Restart t)"
    by simp
  have w1: "process (fst (run_calls obedient_env [SendCommand ''list'', IsServerRunning] (running_server, []))) \<noteq> None"
    using running_implies_process_handle [of running_server obedient_env
        "[SendCommand ''list'', IsServerRunning]" "[]"] r p
    by blast
  have w2: "process (fst (run_calls obedient_env [Start]
      (MinecraftServer_init obedient_env SERVER_JAR MIN_RAM MAX_RAM JAVA_PATH SERVER_PORT []))) \<noteq> None"
    using running_implies_process_handle [of running_server obedient_env "[Start]" "[]"
        SERVER_JAR MIN_RAM MAX_RAM JAVA_PATH SERVER_PORT] i
    by blast
  have w3: "filter is_spawn (snd (do_call obedient_env (running_server, []) (SendCommand ''list''))) = [] \<and>
      filter is_spawn (snd (do_call obedient_env (running_server, []) Start)) = []"
    using running_implies_process_handle [of running_server obedient_env "[]" "[]"
        SERVER_JAR MIN_RAM MAX_RAM JAVA_PATH SERVER_PORT "SendCommand ''list''" 30] p q
    by simp
  show ?thesis using r p i q w1 w2 w3 by blast
qed

section \<open>Stopping a server that runs\<close>
























end
